theory Spec2Isabelle
  imports Complex_Main
begin

section \<open>Python values and exceptions used by sync_stats.py\<close>

text \<open>
  The exceptions that the code of \<^verbatim>\<open>sync_stats.py\<close> raises, catches or lets through.
  \<^verbatim>\<open>JSONDecodeError\<close> and \<^verbatim>\<open>UnicodeDecodeError\<close> are subclasses of \<^verbatim>\<open>ValueError\<close>,
  \<^verbatim>\<open>FileNotFoundError\<close> is a subclass of \<^verbatim>\<open>OSError\<close> (and \<^verbatim>\<open>IOError\<close> is \<^verbatim>\<open>OSError\<close>).
\<close>

datatype pyexc =
    JSONDecodeError | UnicodeDecodeError | ValueError | TypeError | OverflowError
  | AttributeError | KeyError | OSError | FileNotFoundError | SSHException | DatabaseError

fun base_class :: "pyexc \<Rightarrow> pyexc option" where
  "base_class JSONDecodeError = Some ValueError"
| "base_class UnicodeDecodeError = Some ValueError"
| "base_class FileNotFoundError = Some OSError"
| "base_class _ = None"

definition isinstance :: "pyexc \<Rightarrow> pyexc \<Rightarrow> bool" where
  "isinstance e c = (e = c \<or> base_class e = Some c)"

text \<open>\<^verbatim>\<open>except (c1, c2, ...)\<close>: the handler catches an instance of any listed class.\<close>

definition caught_by :: "pyexc list \<Rightarrow> pyexc \<Rightarrow> bool" where
  "caught_by cs e = list_ex (isinstance e) cs"

text \<open>
  A decoded JSON document as \<^verbatim>\<open>json.load\<close> returns it. A Python float is a finite
  rational, an infinity or NaN (the decoder accepts \<^verbatim>\<open>Infinity\<close>, \<^verbatim>\<open>-Infinity\<close>, \<^verbatim>\<open>NaN\<close>).
  A dict is the list of its items in insertion order; the keys of a real dict are distinct.
\<close>

datatype pyfloat = Fin rat | PosInf | NegInf | NaN

datatype json =
    JNull | JBool bool | JInt int | JFloat pyfloat | JStr string
  | JArr "json list" | JObj "(string \<times> json) list"

text \<open>\<^verbatim>\<open>d[k] = v\<close> on a dict: an existing key keeps its position, a new key is appended.\<close>

fun dict_set :: "('k \<times> 'v) list \<Rightarrow> 'k \<Rightarrow> 'v \<Rightarrow> ('k \<times> 'v) list" where
  "dict_set [] k v = [(k, v)]"
| "dict_set ((k', v') # d) k v = (if k' = k then (k, v) # d else (k', v') # dict_set d k v)"

text \<open>\<^verbatim>\<open>x.get(key, default)\<close>: only a dict has the method.\<close>

definition py_get :: "json \<Rightarrow> string \<Rightarrow> json \<Rightarrow> pyexc + json" where
  "py_get x k dflt =
     (case x of
        JObj d \<Rightarrow> Inr (case map_of d k of Some v \<Rightarrow> v | None \<Rightarrow> dflt)
      | _ \<Rightarrow> Inl AttributeError)"

subsection \<open>The builtin int()\<close>

definition is_space :: "char \<Rightarrow> bool" where
  "is_space c = (c \<in> set [CHR '' '', CHR 0x09, CHR 0x0A, CHR 0x0B, CHR 0x0C, CHR 0x0D])"

definition strip_ws :: "string \<Rightarrow> string" where
  "strip_ws s = rev (dropWhile is_space (rev (dropWhile is_space s)))"

definition digit_val :: "char \<Rightarrow> nat option" where
  "digit_val c =
     (let n = (of_char c :: nat) in if 48 \<le> n \<and> n \<le> 57 then Some (n - 48) else None)"

text \<open>
  Decimal digits with single underscores between digits; the flag says that the
  previous character was a digit.
\<close>

fun digits_val :: "string \<Rightarrow> nat \<Rightarrow> bool \<Rightarrow> nat option" where
  "digits_val [] acc prev = (if prev then Some acc else None)"
| "digits_val (c # cs) acc prev =
     (if c = CHR ''_'' then (if prev then digits_val cs acc False else None)
      else case digit_val c of
             None \<Rightarrow> None
           | Some d \<Rightarrow> digits_val cs (10 * acc + d) True)"

text \<open>
  \<^verbatim>\<open>int(s)\<close> for a str: surrounding whitespace, an optional sign, an integer literal in
  base 10. (ASCII only; the interpreter's limit on the number of digits is not modelled.)
\<close>

definition int_of_str :: "string \<Rightarrow> int option" where
  "int_of_str s =
     (case strip_ws s of
        [] \<Rightarrow> None
      | c # cs \<Rightarrow>
          if c = CHR ''-'' then map_option (\<lambda>n. - int n) (digits_val cs 0 False)
          else if c = CHR ''+'' then map_option int (digits_val cs 0 False)
          else map_option int (digits_val (c # cs) 0 False))"

definition trunc :: "rat \<Rightarrow> int" where
  "trunc r = (if 0 \<le> r then \<lfloor>r\<rfloor> else \<lceil>r\<rceil>)"

fun py_int :: "json \<Rightarrow> pyexc + int" where
  "py_int JNull = Inl TypeError"
| "py_int (JBool b) = Inr (if b then 1 else 0)"
| "py_int (JInt i) = Inr i"
| "py_int (JFloat (Fin r)) = Inr (trunc r)"
| "py_int (JFloat NaN) = Inl ValueError"
| "py_int (JFloat PosInf) = Inl OverflowError"
| "py_int (JFloat NegInf) = Inl OverflowError"
| "py_int (JStr s) = (case int_of_str s of Some i \<Rightarrow> Inr i | None \<Rightarrow> Inl ValueError)"
| "py_int (JArr _) = Inl TypeError"
| "py_int (JObj _) = Inl TypeError"

section \<open>Stat Parser: parse_stats\<close>

text \<open>
  What \<^verbatim>\<open>path.open(...)\<close> followed by \<^verbatim>\<open>json.load(f)\<close> does on a file: it raises, or it
  returns the decoded document. A file on disk is represented by this outcome.
\<close>

datatype disk_file = Raises pyexc | Decoded json

definition SECTION_KEYS :: "string list" where
  "SECTION_KEYS =
     [''minecraft:used'', ''minecraft:mined'', ''minecraft:broken'', ''minecraft:custom'',
      ''minecraft:killed'', ''minecraft:crafted'', ''minecraft:dropped'',
      ''minecraft:killed_by'', ''minecraft:picked_up'']"

type_synonym stats_dict = "(string \<times> int) list"
type_synonym sections = "(string \<times> stats_dict) list"

text \<open>The inner loop \<^verbatim>\<open>for key, val in raw_vals.items()\<close> (lines 257-261).\<close>

fun clean_items :: "(string \<times> json) list \<Rightarrow> stats_dict \<Rightarrow> pyexc + stats_dict" where
  "clean_items [] cleaned = Inr cleaned"
| "clean_items ((key, val) # rest) cleaned =
     (case py_int val of
        Inr i \<Rightarrow> clean_items rest (dict_set cleaned key i)
      | Inl e \<Rightarrow>
          if caught_by [TypeError, ValueError] e then clean_items rest cleaned else Inl e)"

text \<open>The outer loop \<^verbatim>\<open>for section in SECTION_KEYS\<close> (lines 252-263).\<close>

fun parse_sections :: "json \<Rightarrow> string list \<Rightarrow> sections \<Rightarrow> pyexc + sections" where
  "parse_sections stats_section [] secs = Inr secs"
| "parse_sections stats_section (section # rest) secs =
     (case py_get stats_section section (JObj []) of
        Inl e \<Rightarrow> Inl e
      | Inr raw_vals \<Rightarrow>
          (case raw_vals of
             JObj items \<Rightarrow>
               (case clean_items items [] of
                  Inl e \<Rightarrow> Inl e
                | Inr cleaned \<Rightarrow>
                    parse_sections stats_section rest
                      (if cleaned \<noteq> [] then dict_set secs section cleaned else secs))
           | _ \<Rightarrow> parse_sections stats_section rest secs))"

text \<open>
  \<^verbatim>\<open>parse_stats\<close> (lines 242-265): \<open>Inl e\<close> is an exception that leaves the function,
  \<open>Inr None\<close> the return value \<^verbatim>\<open>None\<close>, \<open>Inr (Some (sections, data))\<close> the returned pair.
\<close>

definition parse_stats :: "disk_file \<Rightarrow> pyexc + (sections \<times> json) option" where
  "parse_stats f =
     (case f of
        Raises e \<Rightarrow> if caught_by [JSONDecodeError, OSError] e then Inr None else Inl e
      | Decoded data \<Rightarrow>
          (case py_get data ''stats'' (JObj []) of
             Inl e \<Rightarrow> Inl e
           | Inr stats_section \<Rightarrow>
               (case parse_sections stats_section SECTION_KEYS [] of
                  Inl e \<Rightarrow> Inl e
                | Inr secs \<Rightarrow> Inr (Some (secs, data)))))"

section \<open>Usercache Loader: load_usercache\<close>

text \<open>\<^verbatim>\<open>for entry in entries\<close>: a list gives its elements, a dict its keys, a str its characters.\<close>

definition py_iter :: "json \<Rightarrow> pyexc + json list" where
  "py_iter x =
     (case x of
        JArr xs \<Rightarrow> Inr xs
      | JObj d \<Rightarrow> Inr (map (\<lambda>kv. JStr (fst kv)) d)
      | JStr s \<Rightarrow> Inr (map (\<lambda>c. JStr [c]) s)
      | _ \<Rightarrow> Inl TypeError)"

fun starts_with :: "string \<Rightarrow> string \<Rightarrow> bool" where
  "starts_with [] s = True"
| "starts_with (p # ps) [] = False"
| "starts_with (p # ps) (c # cs) = (p = c \<and> starts_with ps cs)"

fun has_substring :: "string \<Rightarrow> string \<Rightarrow> bool" where
  "has_substring p [] = (p = [])"
| "has_substring p (c # cs) = (starts_with p (c # cs) \<or> has_substring p cs)"

text \<open>
  \<^verbatim>\<open>"k" in entry\<close> for a str \<open>k\<close>: key membership in a dict, element membership in a list,
  substring test in a str, \<^verbatim>\<open>TypeError\<close> for anything else.
\<close>

definition py_contains :: "string \<Rightarrow> json \<Rightarrow> pyexc + bool" where
  "py_contains k x =
     (case x of
        JObj d \<Rightarrow> Inr (k \<in> set (map fst d))
      | JArr xs \<Rightarrow> Inr (JStr k \<in> set xs)
      | JStr s \<Rightarrow> Inr (has_substring k s)
      | _ \<Rightarrow> Inl TypeError)"

text \<open>\<^verbatim>\<open>entry["k"]\<close> for a str \<open>k\<close>: only a dict can be indexed with a str.\<close>

definition py_getitem :: "json \<Rightarrow> string \<Rightarrow> pyexc + json" where
  "py_getitem x k =
     (case x of
        JObj d \<Rightarrow> (case map_of d k of Some v \<Rightarrow> Inr v | None \<Rightarrow> Inl KeyError)
      | _ \<Rightarrow> Inl TypeError)"

text \<open>
  Keys of the dict \<^verbatim>\<open>uuid_to_name\<close> are arbitrary decoded values: lists and dicts are not
  hashable, and numbers and booleans of equal value are the same key.
\<close>

fun hashable :: "json \<Rightarrow> bool" where
  "hashable (JArr _) = False"
| "hashable (JObj _) = False"
| "hashable _ = True"

fun num_of :: "json \<Rightarrow> pyfloat option" where
  "num_of (JBool b) = Some (Fin (if b then 1 else 0))"
| "num_of (JInt i) = Some (Fin (of_int i))"
| "num_of (JFloat f) = Some f"
| "num_of _ = None"

definition key_eq :: "json \<Rightarrow> json \<Rightarrow> bool" where
  "key_eq a b =
     (case (num_of a, num_of b) of
        (Some x, Some y) \<Rightarrow> x = y
      | (None, None) \<Rightarrow> a = b
      | _ \<Rightarrow> False)"

type_synonym name_dict = "(json \<times> json) list"

fun name_set :: "name_dict \<Rightarrow> json \<Rightarrow> json \<Rightarrow> name_dict" where
  "name_set [] k v = [(k, v)]"
| "name_set ((k', v') # d) k v =
     (if key_eq k' k then (k', v) # d else (k', v') # name_set d k v)"

text \<open>\<^verbatim>\<open>uuid_to_name.get(uuid)\<close> for a str \<open>uuid\<close>.\<close>

fun name_get :: "name_dict \<Rightarrow> string \<Rightarrow> json option" where
  "name_get [] u = None"
| "name_get ((k, v) # d) u = (if key_eq k (JStr u) then Some v else name_get d u)"

text \<open>The loop \<^verbatim>\<open>for entry in entries\<close> of lines 80-82.\<close>

fun collect_names :: "json list \<Rightarrow> name_dict \<Rightarrow> pyexc + name_dict" where
  "collect_names [] uuid_to_name = Inr uuid_to_name"
| "collect_names (entry # rest) uuid_to_name =
     (case py_contains ''uuid'' entry of
        Inl e \<Rightarrow> Inl e
      | Inr False \<Rightarrow> collect_names rest uuid_to_name
      | Inr True \<Rightarrow>
          (case py_contains ''name'' entry of
             Inl e \<Rightarrow> Inl e
           | Inr False \<Rightarrow> collect_names rest uuid_to_name
           | Inr True \<Rightarrow>
               (case py_getitem entry ''uuid'' of
                  Inl e \<Rightarrow> Inl e
                | Inr k \<Rightarrow>
                    (case py_getitem entry ''name'' of
                       Inl e \<Rightarrow> Inl e
                     | Inr v \<Rightarrow>
                         if hashable k then collect_names rest (name_set uuid_to_name k v)
                         else Inl TypeError))))"

text \<open>
  \<^verbatim>\<open>load_usercache\<close> (lines 69-88). The argument is the file at the path, \<open>None\<close> when the
  path does not exist. The handler of line 86 covers the whole body of the \<^verbatim>\<open>try\<close>.
\<close>

definition load_usercache :: "disk_file option \<Rightarrow> pyexc + name_dict" where
  "load_usercache path =
     (case path of
        None \<Rightarrow> Inr []
      | Some f \<Rightarrow>
          (let body =
             (case f of
                Raises e \<Rightarrow> Inl e
              | Decoded entries \<Rightarrow>
                  (case py_iter entries of
                     Inl e \<Rightarrow> Inl e
                   | Inr es \<Rightarrow> collect_names es []))
           in case body of
                Inl e \<Rightarrow> if caught_by [JSONDecodeError, OSError] e then Inr [] else Inl e
              | Inr uuid_to_name \<Rightarrow> Inr uuid_to_name))"

section \<open>Source Acquirer: maybe_fetch_world_via_sftp\<close>

record sftp_cfg =
  enabled :: bool
  host :: string
  port :: int
  user :: string
  password :: string
  remote_root_path :: string
  world_name :: string
  remote_world_path :: string

text \<open>
  The transfer collaborator (paramiko): each call either raises or succeeds.
  \<open>open_transport\<close> is \<^verbatim>\<open>paramiko.Transport((host, port))\<close>, which opens the socket to the
  host; \<open>transport_connect\<close> is \<^verbatim>\<open>transport.connect(username, password)\<close>, the negotiation
  and authentication; \<open>open_sftp\<close> is \<^verbatim>\<open>SFTPClient.from_transport\<close>. \<open>mkdtemp\<close> is the name
  that \<^verbatim>\<open>tempfile.mkdtemp\<close> picks under the given directory.
\<close>

record remote =
  open_transport :: "string \<Rightarrow> int \<Rightarrow> pyexc option"
  transport_connect :: "string \<Rightarrow> string \<Rightarrow> pyexc option"
  open_sftp :: "pyexc option"
  sftp_get :: "string \<Rightarrow> pyexc + disk_file"
  sftp_listdir :: "string \<Rightarrow> pyexc + string list"
  mkdtemp :: "string option \<Rightarrow> string"

text \<open>
  The local disk: the configured world (its \<^verbatim>\<open>stats\<close> directory, \<open>None\<close> when absent, and
  the sibling \<^verbatim>\<open>usercache.json\<close>), and the temporary roots that exist, each with the
  \<^verbatim>\<open>usercache.json\<close> and the \<^verbatim>\<open>world/stats\<close> directory below it.
\<close>

record temp_tree =
  usercache_json :: "disk_file option"
  stats_files :: "(string \<times> disk_file) list option"

record disk =
  world_stats :: "(string \<times> disk_file) list option"
  world_usercache :: "disk_file option"
  temp_roots :: "string \<Rightarrow> temp_tree option"

definition rstrip_slash :: "string \<Rightarrow> string" where
  "rstrip_slash s = rev (dropWhile (\<lambda>c. c = CHR ''/'') (rev s))"

definition strip_slash :: "string \<Rightarrow> string" where
  "strip_slash s = rstrip_slash (dropWhile (\<lambda>c. c = CHR ''/'') s)"

definition ends_with :: "string \<Rightarrow> string \<Rightarrow> bool" where
  "ends_with suffix s = starts_with (rev suffix) (rev s)"

definition rmtree :: "string \<Rightarrow> disk \<Rightarrow> disk" where
  "rmtree tmp d = d\<lparr>temp_roots := (temp_roots d)(tmp := None)\<rparr>"

text \<open>The download loop of lines 212-214, writing into the local \<^verbatim>\<open>stats\<close> directory.\<close>

fun download_entries ::
  "remote \<Rightarrow> string \<Rightarrow> string list \<Rightarrow> (string \<times> disk_file) list
     \<Rightarrow> pyexc + (string \<times> disk_file) list" where
  "download_entries rem remote_stats [] local_stats = Inr local_stats"
| "download_entries rem remote_stats (entry # rest) local_stats =
     (if ends_with ''.json'' entry then
        (case sftp_get rem (remote_stats @ ''/'' @ entry) of
           Inl e \<Rightarrow> Inl e
         | Inr f \<Rightarrow> download_entries rem remote_stats rest (dict_set local_stats entry f))
      else download_entries rem remote_stats rest local_stats)"

text \<open>
  Lines 191-216, the body of the outer \<^verbatim>\<open>try\<close>: the result is the content of the temporary
  root after the downloads, or the exception that reaches the handler of line 217.
  A usercache download that fails with \<^verbatim>\<open>IOError\<close> is logged and leaves no usable file.
\<close>

definition fetch_body :: "sftp_cfg \<Rightarrow> remote \<Rightarrow> string \<Rightarrow> pyexc + temp_tree" where
  "fetch_body cfg rem remote_world =
     (case transport_connect rem (user cfg) (password cfg) of
        Some e \<Rightarrow> Inl e
      | None \<Rightarrow>
     (case open_sftp rem of
        Some e \<Rightarrow> Inl e
      | None \<Rightarrow>
     (let got =
        (if remote_root_path cfg \<noteq> [] then
           (case sftp_get rem (rstrip_slash (remote_root_path cfg) @ ''/usercache.json'') of
              Inl e \<Rightarrow> if caught_by [OSError] e then Inr None else Inl e
            | Inr f \<Rightarrow> Inr (Some f))
         else Inr None)
      in case got of
           Inl e \<Rightarrow> Inl e
         | Inr local_usercache \<Rightarrow>
             (let remote_stats = rstrip_slash remote_world @ ''/stats'' in
              case sftp_listdir rem remote_stats of
                Inl e \<Rightarrow> Inl e
              | Inr entries \<Rightarrow>
                  (case download_entries rem remote_stats entries [] of
                     Inl e \<Rightarrow> Inl e
                   | Inr local_stats \<Rightarrow>
                       Inr \<lparr>usercache_json = local_usercache,
                            stats_files = Some local_stats\<rparr>)))))"

text \<open>
  \<^verbatim>\<open>maybe_fetch_world_via_sftp\<close> (lines 165-226). The result \<open>Inr None\<close> is the pair
  \<^verbatim>\<open>(None, None)\<close>; \<open>Inr (Some root)\<close> is the local world below the temporary root
  \<open>root\<close>, with the cleanup that removes \<open>root\<close>. The temporary root is created (lines
  184-186) before the transport is opened (line 189), and the \<^verbatim>\<open>try\<close> whose handler
  removes it starts at line 190.
\<close>

definition maybe_fetch_world_via_sftp ::
  "sftp_cfg \<Rightarrow> string option \<Rightarrow> remote \<Rightarrow> disk \<Rightarrow> (pyexc + string option) \<times> disk" where
  "maybe_fetch_world_via_sftp cfg temp_dir rem d =
     (if \<not> enabled cfg then (Inr None, d)
      else
        let remote_world =
              (if world_name cfg \<noteq> [] \<and> remote_root_path cfg \<noteq> []
               then rstrip_slash (remote_root_path cfg) @ ''/'' @ strip_slash (world_name cfg)
               else remote_world_path cfg)
        in if host cfg = [] \<or> remote_world = [] then (Inr None, d)
           else
             let temp_root = mkdtemp rem temp_dir;
                 d1 = d\<lparr>temp_roots := (temp_roots d)
                        (temp_root \<mapsto> \<lparr>usercache_json = None, stats_files = None\<rparr>)\<rparr>
             in case open_transport rem (host cfg) (port cfg) of
                  Some e \<Rightarrow> (Inl e, d1)
                | None \<Rightarrow>
                    (case fetch_body cfg rem remote_world of
                       Inl e \<Rightarrow> (Inl e, rmtree temp_root d1)
                     | Inr tree \<Rightarrow>
                         (Inr (Some temp_root),
                          d1\<lparr>temp_roots := (temp_roots d1)(temp_root \<mapsto> tree)\<rparr>)))"

section \<open>The database\<close>

text \<open>
  The tables as the \<^verbatim>\<open>CREATE TABLE\<close> statements of lines 105-156 declare them. The
  players table and a raw table have the primary key \<^verbatim>\<open>uuid\<close>; a section table has the
  unique key \<^verbatim>\<open>(uuid, stat_key)\<close>, a surrogate \<^verbatim>\<open>AUTO_INCREMENT\<close> id and a counter for
  the next id. Timestamps are natural numbers. Keys are compared as strings.
\<close>

record player_row =
  p_name :: "json option"
  first_seen :: nat
  last_seen :: nat

record raw_row =
  stats_json :: json
  raw_updated_at :: nat

record section_row =
  row_id :: nat
  stat_value :: int
  updated_at :: nat

record section_table =
  rows :: "string \<times> string \<Rightarrow> section_row option"
  auto_increment :: nat

record database =
  players :: "string \<Rightarrow> player_row option"
  raw_tables :: "string \<Rightarrow> string \<Rightarrow> raw_row option"
  section_tables :: "string \<Rightarrow> section_table"

text \<open>
  The statements the program sends. \<open>DDL t\<close> stands for the \<^verbatim>\<open>CREATE TABLE IF NOT EXISTS\<close>
  and \<^verbatim>\<open>ALTER TABLE ... ADD COLUMN\<close> statements of one \<^verbatim>\<open>ensure_*\<close> call for table \<open>t\<close>;
  they change no row.
\<close>

datatype stmt =
    DDL string
  | UpsertPlayer string "json option"
  | UpsertRaw string string json
  | DeleteSection string string
  | InsertSection string "(string \<times> string \<times> int) list"

text \<open>
  One row of \<^verbatim>\<open>INSERT ... ON DUPLICATE KEY UPDATE stat_value = VALUES(stat_value),
  updated_at = CURRENT_TIMESTAMP\<close> (lines 302-308).
\<close>

fun insert_row :: "nat \<Rightarrow> section_table \<Rightarrow> string \<times> string \<times> int \<Rightarrow> section_table" where
  "insert_row now t (u, k, v) =
     (case rows t (u, k) of
        Some r \<Rightarrow> t\<lparr>rows := (rows t)((u, k) \<mapsto> r\<lparr>stat_value := v, updated_at := now\<rparr>)\<rparr>
      | None \<Rightarrow>
          t\<lparr>rows := (rows t)((u, k) \<mapsto>
                 \<lparr>row_id = auto_increment t, stat_value = v, updated_at = now\<rparr>),
            auto_increment := auto_increment t + 1\<rparr>)"

text \<open>
  The effect of a statement at time \<open>now\<close>:
  the player upsert of lines 270-276 (\<^verbatim>\<open>name = COALESCE(VALUES(name), name)\<close>,
  \<^verbatim>\<open>last_seen = CURRENT_TIMESTAMP\<close>), the raw upsert of lines 282-288, the
  \<^verbatim>\<open>DELETE FROM t WHERE uuid = %s\<close> of line 297 and the bulk insert of lines 302-313.
\<close>

fun apply_stmt :: "nat \<Rightarrow> stmt \<Rightarrow> database \<Rightarrow> database" where
  "apply_stmt now (DDL t) db = db"
| "apply_stmt now (UpsertPlayer u n) db =
     (case players db u of
        None \<Rightarrow>
          db\<lparr>players := (players db)(u \<mapsto> \<lparr>p_name = n, first_seen = now, last_seen = now\<rparr>)\<rparr>
      | Some r \<Rightarrow>
          db\<lparr>players := (players db)(u \<mapsto>
                r\<lparr>p_name := (case n of Some x \<Rightarrow> Some x | None \<Rightarrow> p_name r),
                  last_seen := now\<rparr>)\<rparr>)"
| "apply_stmt now (UpsertRaw t u doc) db =
     db\<lparr>raw_tables := (raw_tables db)
          (t := (raw_tables db t)(u \<mapsto> \<lparr>stats_json = doc, raw_updated_at = now\<rparr>))\<rparr>"
| "apply_stmt now (DeleteSection t u) db =
     db\<lparr>section_tables := (section_tables db)
          (t := (section_tables db t)
                  \<lparr>rows := (\<lambda>(u', k). if u' = u then None
                                      else rows (section_tables db t) (u', k))\<rparr>)\<rparr>"
| "apply_stmt now (InsertSection t rs) db =
     db\<lparr>section_tables := (section_tables db)
          (t := foldl (insert_row now) (section_tables db t) rs)\<rparr>"

text \<open>
  The server: which statements it refuses in which state (a constraint, a value out of
  range, a lost connection), its clock, and whether \<^verbatim>\<open>mysql.connector.connect\<close> fails.
\<close>

record db_server =
  rejects :: "database \<Rightarrow> stmt \<Rightarrow> bool"
  current_timestamp :: nat
  connect_error :: "pyexc option"

text \<open>
  A connection opened with \<^verbatim>\<open>autocommit=False\<close>: the rows the server has committed, and the
  rows as the open transaction sees them. \<^verbatim>\<open>conn.commit()\<close> makes the transaction's rows
  the committed ones; \<^verbatim>\<open>conn.close()\<close> leaves the committed ones.
\<close>

record connection =
  committed :: database
  pending :: database

definition commit :: "connection \<Rightarrow> connection" where
  "commit conn = conn\<lparr>committed := pending conn\<rparr>"

text \<open>\<^verbatim>\<open>cur.execute\<close> and \<^verbatim>\<open>cur.executemany\<close>: the exception raised, if any, and the connection.\<close>

definition execute :: "db_server \<Rightarrow> stmt \<Rightarrow> connection \<Rightarrow> pyexc option \<times> connection" where
  "execute srv s conn =
     (if rejects srv (pending conn) s then (Some DatabaseError, conn)
      else (None, conn\<lparr>pending := apply_stmt (current_timestamp srv) s (pending conn)\<rparr>))"

text \<open>
  The three \<^verbatim>\<open>ensure_*\<close> functions (lines 91-162) send their statements and commit.
\<close>

definition ensure_table :: "db_server \<Rightarrow> string \<Rightarrow> connection \<Rightarrow> pyexc option \<times> connection" where
  "ensure_table srv t conn =
     (case execute srv (DDL t) conn of
        (Some e, c) \<Rightarrow> (Some e, c)
      | (None, c) \<Rightarrow> (None, commit c))"

definition ensure_players_table :: "db_server \<Rightarrow> connection \<Rightarrow> pyexc option \<times> connection" where
  "ensure_players_table srv conn = ensure_table srv ''players'' conn"

definition ensure_raw_table :: "db_server \<Rightarrow> string \<Rightarrow> connection \<Rightarrow> pyexc option \<times> connection" where
  "ensure_raw_table srv t conn = ensure_table srv t conn"

definition ensure_section_table :: "db_server \<Rightarrow> string \<Rightarrow> connection \<Rightarrow> pyexc option \<times> connection" where
  "ensure_section_table srv t conn = ensure_table srv t conn"

text \<open>
  A parameter of a statement: \<^verbatim>\<open>None\<close> is \<^verbatim>\<open>NULL\<close>, a list or a dict cannot be converted.
\<close>

fun sql_param :: "json option \<Rightarrow> pyexc + json option" where
  "sql_param None = Inr None"
| "sql_param (Some JNull) = Inr None"
| "sql_param (Some (JArr xs)) = Inl DatabaseError"
| "sql_param (Some (JObj d)) = Inl DatabaseError"
| "sql_param (Some v) = Inr (Some v)"

definition upsert_player ::
  "db_server \<Rightarrow> connection \<Rightarrow> string \<Rightarrow> json option \<Rightarrow> pyexc option \<times> connection" where
  "upsert_player srv conn uuid name =
     (case sql_param name of
        Inl e \<Rightarrow> (Some e, conn)
      | Inr n \<Rightarrow> execute srv (UpsertPlayer uuid n) conn)"

definition upsert_raw ::
  "db_server \<Rightarrow> connection \<Rightarrow> string \<Rightarrow> string \<Rightarrow> json \<Rightarrow> pyexc option \<times> connection" where
  "upsert_raw srv conn t uuid raw_stats = execute srv (UpsertRaw t uuid raw_stats) conn"

definition upsert_section ::
  "db_server \<Rightarrow> connection \<Rightarrow> string \<Rightarrow> string \<Rightarrow> stats_dict \<Rightarrow> pyexc option \<times> connection" where
  "upsert_section srv conn t uuid stats =
     (case execute srv (DeleteSection t uuid) conn of
        (Some e, c) \<Rightarrow> (Some e, c)
      | (None, c) \<Rightarrow>
          if stats = [] then (None, c)
          else execute srv (InsertSection t (map (\<lambda>(key, val). (uuid, key, val)) stats)) c)"

section \<open>Sync Engine: sync\<close>

record mysql_cfg =
  raw_table :: string
  used_table :: string
  mined_table :: string
  broken_table :: string
  custom_table :: string
  killed_table :: string
  crafted_table :: string
  dropped_table :: string
  killed_by_table :: string
  picked_up_table :: string

record config =
  temp_dir :: "string option"
  mysql :: mysql_cfg
  sftp :: sftp_cfg

definition section_table_map :: "mysql_cfg \<Rightarrow> (string \<times> string) list" where
  "section_table_map m =
     [(''minecraft:used'', used_table m),
      (''minecraft:mined'', mined_table m),
      (''minecraft:broken'', broken_table m),
      (''minecraft:custom'', custom_table m),
      (''minecraft:killed'', killed_table m),
      (''minecraft:crafted'', crafted_table m),
      (''minecraft:dropped'', dropped_table m),
      (''minecraft:killed_by'', killed_by_table m),
      (''minecraft:picked_up'', picked_up_table m)]"

text \<open>\<^verbatim>\<open>Path.stem\<close>: the name without its last suffix.\<close>

definition rfind_dot :: "string \<Rightarrow> int" where
  "rfind_dot s =
     (if CHR ''.'' \<in> set s
      then int (length s) - 1 - int (length (takeWhile (\<lambda>c. c \<noteq> CHR ''.'') (rev s)))
      else - 1)"

definition stem :: "string \<Rightarrow> string" where
  "stem name =
     (let i = rfind_dot name
      in if 0 < i \<and> i < int (length name) - 1 then take (nat i) name else name)"

text \<open>\<^verbatim>\<open>stats_dir.glob("*.json")\<close> on the entries of the directory.\<close>

definition glob_json :: "(string \<times> disk_file) list \<Rightarrow> (string \<times> disk_file) list" where
  "glob_json entries = filter (\<lambda>entry. ends_with ''.json'' (fst entry)) entries"

text \<open>The loop over the sections of one player (lines 399-403).\<close>

fun upsert_sections ::
  "db_server \<Rightarrow> (string \<times> string) list \<Rightarrow> string \<Rightarrow> sections \<Rightarrow> connection
     \<Rightarrow> pyexc option \<times> connection" where
  "upsert_sections srv tmap uuid [] conn = (None, conn)"
| "upsert_sections srv tmap uuid ((section_key, stats_dict) # rest) conn =
     (case map_of tmap section_key of
        None \<Rightarrow> upsert_sections srv tmap uuid rest conn
      | Some t \<Rightarrow>
          if t = [] then upsert_sections srv tmap uuid rest conn
          else
            (case upsert_section srv conn t uuid stats_dict of
               (Some e, c) \<Rightarrow> (Some e, c)
             | (None, c) \<Rightarrow> upsert_sections srv tmap uuid rest c))"

text \<open>
  What the loop body does with one parsed file (lines 393-403): the player row first,
  then the raw row, then the sections.
\<close>

definition store_player ::
  "db_server \<Rightarrow> mysql_cfg \<Rightarrow> name_dict \<Rightarrow> string \<Rightarrow> sections \<Rightarrow> json \<Rightarrow> connection
     \<Rightarrow> pyexc option \<times> connection" where
  "store_player srv m uuid_to_name uuid secs raw_stats conn =
     (case upsert_player srv conn uuid (name_get uuid_to_name uuid) of
        (Some e, c) \<Rightarrow> (Some e, c)
      | (None, c1) \<Rightarrow>
     (case upsert_raw srv c1 (raw_table m) uuid raw_stats of
        (Some e, c) \<Rightarrow> (Some e, c)
      | (None, c2) \<Rightarrow> upsert_sections srv (section_table_map m) uuid secs c2))"

text \<open>
  The loop over the files (lines 386-407); the result is the exception that leaves the
  loop or the final value of \<^verbatim>\<open>processed\<close>.
\<close>

fun process_files ::
  "db_server \<Rightarrow> mysql_cfg \<Rightarrow> name_dict \<Rightarrow> (string \<times> disk_file) list \<Rightarrow> connection \<Rightarrow> nat
     \<Rightarrow> (pyexc + nat) \<times> connection" where
  "process_files srv m uuid_to_name [] conn processed = (Inr processed, conn)"
| "process_files srv m uuid_to_name ((fname, f) # rest) conn processed =
     (case parse_stats f of
        Inl e \<Rightarrow> (Inl e, conn)
      | Inr None \<Rightarrow> process_files srv m uuid_to_name rest conn processed
      | Inr (Some (secs, raw_stats)) \<Rightarrow>
          (case store_player srv m uuid_to_name (stem fname) secs raw_stats conn of
             (Some e, c) \<Rightarrow> (Inl e, c)
           | (None, c) \<Rightarrow> process_files srv m uuid_to_name rest c (processed + 1)))"

text \<open>The loop \<^verbatim>\<open>for table in section_table_map.values()\<close> (lines 382-384).\<close>

fun ensure_section_tables ::
  "db_server \<Rightarrow> string list \<Rightarrow> connection \<Rightarrow> pyexc option \<times> connection" where
  "ensure_section_tables srv [] conn = (None, conn)"
| "ensure_section_tables srv (t # ts) conn =
     (case ensure_section_table srv t conn of
        (Some e, c) \<Rightarrow> (Some e, c)
      | (None, c) \<Rightarrow> ensure_section_tables srv ts c)"

text \<open>The body of the \<^verbatim>\<open>try\<close> of lines 361-410, up to and including \<^verbatim>\<open>conn.commit()\<close>.\<close>

definition sync_body ::
  "db_server \<Rightarrow> mysql_cfg \<Rightarrow> name_dict \<Rightarrow> (string \<times> disk_file) list \<Rightarrow> connection
     \<Rightarrow> (pyexc + nat) \<times> connection" where
  "sync_body srv m uuid_to_name entries conn =
     (case ensure_players_table srv conn of
        (Some e, c) \<Rightarrow> (Inl e, c)
      | (None, c1) \<Rightarrow>
     (case ensure_raw_table srv (raw_table m) c1 of
        (Some e, c) \<Rightarrow> (Inl e, c)
      | (None, c2) \<Rightarrow>
     (case ensure_section_tables srv (map snd (section_table_map m)) c2 of
        (Some e, c) \<Rightarrow> (Inl e, c)
      | (None, c3) \<Rightarrow>
     (case process_files srv m uuid_to_name (glob_json entries) c3 0 of
        (Inl e, c) \<Rightarrow> (Inl e, c)
      | (Inr processed, c4) \<Rightarrow> (Inr processed, commit c4)))))"

record environment =
  transfer :: remote
  server :: db_server

record world =
  on_disk :: disk
  stored :: database

text \<open>
  The source the run works on after lines 328-338: the entries of the stats directory
  (\<open>None\<close> when it does not exist), the usercache file, and the temporary root that
  \<^verbatim>\<open>cleanup_fn\<close> removes, if any.
\<close>

definition resolve_source ::
  "string option \<Rightarrow> disk
     \<Rightarrow> (string \<times> disk_file) list option \<times> disk_file option \<times> string option" where
  "resolve_source fetched_world d =
     (case fetched_world of
        None \<Rightarrow> (world_stats d, world_usercache d, None)
      | Some tmp \<Rightarrow>
          (case temp_roots d tmp of
             None \<Rightarrow> (None, None, Some tmp)
           | Some t \<Rightarrow> (stats_files t, usercache_json t, Some tmp)))"

text \<open>
  \<^verbatim>\<open>sync\<close> (lines 316-415): the exception that leaves it or the number of players
  processed, and the disk and the committed rows afterwards. In the handler of
  lines 339-343 \<^verbatim>\<open>cleanup_fn\<close> is still \<^verbatim>\<open>None\<close>; lines 345-359 are outside any \<^verbatim>\<open>try\<close>;
  the \<^verbatim>\<open>finally\<close> of lines 411-415 closes the connection and runs \<^verbatim>\<open>cleanup_fn\<close>.
\<close>

definition sync :: "config \<Rightarrow> environment \<Rightarrow> world \<Rightarrow> (pyexc + nat) \<times> world" where
  "sync cfg env w =
     (case maybe_fetch_world_via_sftp (sftp cfg) (temp_dir cfg) (transfer env) (on_disk w) of
        (Inl e, d) \<Rightarrow> (Inl e, w\<lparr>on_disk := d\<rparr>)
      | (Inr fetched_world, d) \<Rightarrow>
          (case resolve_source fetched_world d of
             (None, usercache_path, cleanup_fn) \<Rightarrow> (Inl FileNotFoundError, w\<lparr>on_disk := d\<rparr>)
           | (Some entries, usercache_path, cleanup_fn) \<Rightarrow>
               (case load_usercache usercache_path of
                  Inl e \<Rightarrow> (Inl e, w\<lparr>on_disk := d\<rparr>)
                | Inr uuid_to_name \<Rightarrow>
                    (case connect_error (server env) of
                       Some e \<Rightarrow> (Inl e, w\<lparr>on_disk := d\<rparr>)
                     | None \<Rightarrow>
                         (case sync_body (server env) (mysql cfg) uuid_to_name entries
                                 \<lparr>committed = stored w, pending = stored w\<rparr> of
                            (res, conn) \<Rightarrow>
                              (res,
                               \<lparr>on_disk = (case cleanup_fn of
                                             None \<Rightarrow> d
                                           | Some tmp \<Rightarrow> rmtree tmp d),
                                stored = committed conn\<rparr>))))))"

section \<open>The parse result in the words of the specification\<close>

text \<open>
  The entries of a category that the specification retains: those whose value coerces to
  an integer, with the integer. The sections it expects: for each category of the
  allow-list that is present as a mapping and retains at least one entry, the retained
  entries.
\<close>

definition is_infinite :: "json \<Rightarrow> bool" where
  "is_infinite v = (v = JFloat PosInf \<or> v = JFloat NegInf)"

definition retained_entries :: "(string \<times> json) list \<Rightarrow> stats_dict" where
  "retained_entries items =
     concat (map (\<lambda>(k, v). case py_int v of Inr i \<Rightarrow> [(k, i)] | Inl e \<Rightarrow> []) items)"

definition expected_from :: "(string \<times> json) list \<Rightarrow> string list \<Rightarrow> sections" where
  "expected_from d cs =
     concat (map (\<lambda>c. case map_of d c of
                         Some (JObj items) \<Rightarrow>
                           if retained_entries items = [] then []
                           else [(c, retained_entries items)]
                       | _ \<Rightarrow> []) cs)"

definition well_shaped_category :: "json \<Rightarrow> bool" where
  "well_shaped_category x =
     (case x of
        JObj items \<Rightarrow> distinct (map fst items) \<and> (\<forall>kv \<in> set items. \<not> is_infinite (snd kv))
      | _ \<Rightarrow> True)"

definition well_shaped_stats :: "(string \<times> json) list \<Rightarrow> bool" where
  "well_shaped_stats d =
     (\<forall>c \<in> set SECTION_KEYS. case map_of d c of Some x \<Rightarrow> well_shaped_category x | None \<Rightarrow> True)"

definition stats_object :: "json \<Rightarrow> (string \<times> json) list option" where
  "stats_object data =
     (case data of
        JObj doc \<Rightarrow>
          (case map_of doc ''stats'' of
             None \<Rightarrow> Some []
           | Some (JObj d) \<Rightarrow> Some d
           | Some _ \<Rightarrow> None)
      | _ \<Rightarrow> None)"

definition expected_sections :: "(string \<times> json) list \<Rightarrow> sections" where
  "expected_sections d = expected_from d SECTION_KEYS"

text \<open>A decoded document that is a JSON object.\<close>

definition is_object :: "json \<Rightarrow> bool" where
  "is_object j = (case j of JObj d \<Rightarrow> True | _ \<Rightarrow> False)"

section \<open>The usercache mapping in the words of the specification\<close>

text \<open>
  The identifier and the name of a record that has both fields; a record as the
  specification expects it (an object, whose identifier can be a key of the mapping);
  and the mapping the specification describes: records missing either field are
  skipped, the others map their identifier to their name, a later record replacing an
  earlier one with the same identifier.
\<close>

definition both_fields :: "json \<Rightarrow> (json \<times> json) option" where
  "both_fields e =
     (case e of
        JObj d \<Rightarrow>
          (case (map_of d ''uuid'', map_of d ''name'') of
             (Some k, Some v) \<Rightarrow> Some (k, v)
           | _ \<Rightarrow> None)
      | _ \<Rightarrow> None)"

definition record_shaped :: "json \<Rightarrow> bool" where
  "record_shaped e =
     (is_object e \<and> (case both_fields e of Some (k, v) \<Rightarrow> hashable k | None \<Rightarrow> True))"

fun usercache_mapping :: "json list \<Rightarrow> string \<Rightarrow> json option" where
  "usercache_mapping [] u = None"
| "usercache_mapping (e # es) u =
     (case usercache_mapping es u of
        Some v \<Rightarrow> Some v
      | None \<Rightarrow>
          (case both_fields e of
             Some (k, v) \<Rightarrow> if k = JStr u then Some v else None
           | None \<Rightarrow> None))"

section \<open>What the tables hold for a player\<close>

text \<open>
  Everything stored for one player: the player row, the raw row in each raw table, and
  the rows in each section table. The key/value content of a section table for a player
  leaves out the surrogate id and the timestamp.
\<close>

definition stored_for ::
  "database \<Rightarrow> string
     \<Rightarrow> player_row option \<times> (string \<Rightarrow> raw_row option) \<times> (string \<Rightarrow> string \<Rightarrow> section_row option)" where
  "stored_for db u =
     (players db u, (\<lambda>t. raw_tables db t u), (\<lambda>t k. rows (section_tables db t) (u, k)))"

definition section_view :: "database \<Rightarrow> string \<Rightarrow> string \<Rightarrow> string \<Rightarrow> int option" where
  "section_view db t u k = map_option stat_value (rows (section_tables db t) (u, k))"

text \<open>
  The content of all tables without the columns that the server fills in: the surrogate
  ids and the last-seen and updated-at timestamps.
\<close>

definition visible ::
  "database \<Rightarrow> (string \<Rightarrow> (json option \<times> nat) option) \<times> (string \<Rightarrow> string \<Rightarrow> json option)
       \<times> (string \<Rightarrow> string \<times> string \<Rightarrow> int option)" where
  "visible db =
     ((\<lambda>u. map_option (\<lambda>r. (p_name r, first_seen r)) (players db u)),
      (\<lambda>t u. map_option stats_json (raw_tables db t u)),
      (\<lambda>t uk. map_option stat_value (rows (section_tables db t) uk)))"

definition same_data :: "database \<Rightarrow> database \<Rightarrow> bool" where
  "same_data db db' = (visible db = visible db')"

text \<open>
  The data model of the specification gives each category a table of its own: the nine
  configured section table names are distinct and none is empty.
\<close>

definition distinct_tables :: "mysql_cfg \<Rightarrow> bool" where
  "distinct_tables m =
     (distinct (map snd (section_table_map m)) \<and> [] \<notin> set (map snd (section_table_map m)))"

text \<open>One file per player: the files of the batch have distinct stems.\<close>

definition distinct_players :: "(string \<times> disk_file) list \<Rightarrow> bool" where
  "distinct_players files = distinct (map (\<lambda>entry. stem (fst entry)) files)"

text \<open>The sections of a parse result are dicts of dicts with keys from the allow-list.\<close>

definition sections_ok :: "sections \<Rightarrow> bool" where
  "sections_ok secs =
     (distinct (map fst secs) \<and> set (map fst secs) \<subseteq> set SECTION_KEYS \<and>
      (\<forall>cs \<in> set secs. distinct (map fst (snd cs))))"

text \<open>
  A file that cannot be opened or is not JSON: opening it raises \<^verbatim>\<open>OSError\<close> or decoding
  it raises \<^verbatim>\<open>JSONDecodeError\<close>, the two failures that the handler of line 246 names.
  Other ways of being malformed (bytes that are not UTF-8, a document that is not an
  object) are not covered by it. A valid file: it parses, and the name the usercache
  gives for its player is one the server can store.
\<close>

definition undecodable_file :: "string \<times> disk_file \<Rightarrow> bool" where
  "undecodable_file entry =
     (case snd entry of
        Raises e \<Rightarrow> caught_by [JSONDecodeError, OSError] e
      | Decoded data \<Rightarrow> False)"

definition valid_file :: "name_dict \<Rightarrow> string \<times> disk_file \<Rightarrow> bool" where
  "valid_file names entry =
     ((case parse_stats (snd entry) of Inr (Some parsed) \<Rightarrow> True | _ \<Rightarrow> False) \<and>
      (case sql_param (name_get names (stem (fst entry))) of Inr nm \<Rightarrow> True | Inl e \<Rightarrow> False))"

text \<open>
  The tables reflect a parsed file of a player: the player row exists, with the name of
  the usercache if it gives one; the raw row holds the document; and for every category
  of the parse result that has a table, the table holds for the player exactly the parsed
  key/value pairs.
\<close>

definition reflects :: "mysql_cfg \<Rightarrow> name_dict \<Rightarrow> database \<Rightarrow> string \<Rightarrow> sections \<Rightarrow> json \<Rightarrow> bool" where
  "reflects m names db u secs raw =
     ((\<exists>r. players db u = Some r \<and>
           (\<forall>x. sql_param (name_get names u) = Inr (Some x) \<longrightarrow> p_name r = Some x)) \<and>
      (\<exists>rr. raw_tables db (raw_table m) u = Some rr \<and> stats_json rr = raw) \<and>
      (\<forall>C stats t. map_of secs C = Some stats \<and> map_of (section_table_map m) C = Some t
                     \<longrightarrow> section_view db t u = map_of stats))"

section \<open>Example inputs\<close>

text \<open>The document of Scenario A.\<close>

definition scenario_A :: json where
  "scenario_A =
     JObj [(''stats'',
            JObj [(''minecraft:mined'',
                   JObj [(''minecraft:stone'', JInt 42), (''minecraft:dirt'', JStr ''oops'')])])]"

text \<open>
  The table names that \<^verbatim>\<open>load_config\<close> uses by default, a configuration without remote
  fetch, one with remote fetch, a host that cannot be reached, a server that accepts
  every statement, one that refuses every bulk insert, an empty database, and the world
  of Scenario A: one stats file, no usercache.
\<close>

definition default_mysql :: mysql_cfg where
  "default_mysql =
     \<lparr>raw_table = ''player_stats'', used_table = ''player_stats_used'',
      mined_table = ''player_stats_mined'', broken_table = ''player_stats_broken'',
      custom_table = ''player_stats_custom'', killed_table = ''player_stats_killed'',
      crafted_table = ''player_stats_crafted'', dropped_table = ''player_stats_dropped'',
      killed_by_table = ''player_stats_killed_by'',
      picked_up_table = ''player_stats_picked_up''\<rparr>"

definition local_config :: config where
  "local_config =
     \<lparr>temp_dir = None, mysql = default_mysql,
      sftp = \<lparr>enabled = False, host = [], port = 22, user = [], password = [],
              remote_root_path = [], world_name = [], remote_world_path = []\<rparr>\<rparr>"

definition remote_config :: config where
  "remote_config =
     \<lparr>temp_dir = None, mysql = default_mysql,
      sftp = \<lparr>enabled = True, host = ''mc.example.org'', port = 22, user = ''sync'',
              password = ''secret'', remote_root_path = ''/srv/minecraft/'',
              world_name = ''world'', remote_world_path = ''/elsewhere/world''\<rparr>\<rparr>"

definition unreachable_host :: remote where
  "unreachable_host =
     \<lparr>open_transport = (\<lambda>h p. Some SSHException),
      transport_connect = (\<lambda>u p. Some SSHException),
      open_sftp = Some SSHException,
      sftp_get = (\<lambda>p. Inl OSError),
      sftp_listdir = (\<lambda>p. Inl OSError),
      mkdtemp = (\<lambda>d. ''/tmp/mcstats_sftp_a1'')\<rparr>"

definition accepting_server :: "nat \<Rightarrow> db_server" where
  "accepting_server t =
     \<lparr>rejects = (\<lambda>db s. False), current_timestamp = t, connect_error = None\<rparr>"

definition refusing_inserts :: "nat \<Rightarrow> db_server" where
  "refusing_inserts t =
     \<lparr>rejects = (\<lambda>db s. case s of InsertSection tb rs \<Rightarrow> True | _ \<Rightarrow> False),
      current_timestamp = t, connect_error = None\<rparr>"

definition empty_database :: database where
  "empty_database =
     \<lparr>players = (\<lambda>u. None), raw_tables = (\<lambda>t u. None),
      section_tables = (\<lambda>t. \<lparr>rows = (\<lambda>uk. None), auto_increment = 1\<rparr>)\<rparr>"

definition scenario_A_world :: world where
  "scenario_A_world =
     \<lparr>on_disk =
        \<lparr>world_stats =
           Some [(''11111111-1111-1111-1111-111111111111.json'', Decoded scenario_A)],
         world_usercache = None,
         temp_roots = (\<lambda>p. None)\<rparr>,
      stored = empty_database\<rparr>"

text \<open>
  A remote host that serves one stats file below \<^verbatim>\<open>/srv/minecraft/world/stats\<close> and
  nothing anywhere else; a disk without temporary roots; a database that knows one
  player; a usercache with three records, one of them without a name.
\<close>

definition serving_host :: remote where
  "serving_host =
     \<lparr>open_transport = (\<lambda>h p. None),
      transport_connect = (\<lambda>u p. None),
      open_sftp = None,
      sftp_get = (\<lambda>p. if p = ''/srv/minecraft/world/stats/steve.json''
                        then Inr (Decoded scenario_A) else Inl OSError),
      sftp_listdir = (\<lambda>p. if p = ''/srv/minecraft/world/stats''
                            then Inr [''steve.json'', ''README''] else Inl OSError),
      mkdtemp = (\<lambda>d. ''/tmp/mcstats_sftp_a1'')\<rparr>"

definition empty_disk :: disk where
  "empty_disk = \<lparr>world_stats = None, world_usercache = None, temp_roots = (\<lambda>p. None)\<rparr>"

definition steve_database :: database where
  "steve_database =
     empty_database\<lparr>players :=
       (\<lambda>u. if u = ''steve'' then
               Some \<lparr>p_name = Some (JStr ''Steve''), first_seen = 1, last_seen = 1\<rparr>
             else None)\<rparr>"

definition usercache_example :: "json list" where
  "usercache_example =
     [JObj [(''name'', JStr ''Steve''), (''uuid'', JStr ''steve'')],
      JObj [(''uuid'', JStr ''alex'')],
      JObj [(''name'', JStr ''Steve2''), (''uuid'', JStr ''steve'')]]"

text \<open>A world with two stats files, one of which is a JSON array.\<close>

definition array_world :: world where
  "array_world =
     \<lparr>on_disk =
        \<lparr>world_stats = Some [(''steve.json'', Decoded scenario_A), (''alex.json'', Decoded (JArr []))],
         world_usercache = None,
         temp_roots = (\<lambda>p. None)\<rparr>,
      stored = empty_database\<rparr>"

text \<open>
  Scenario C: an earlier run stored the keys \<^verbatim>\<open>{A: 1, B: 2}\<close> of the mined category for
  a player (and a key of the used category); the player's file now holds \<^verbatim>\<open>{A: 3}\<close> for the
  mined category and nothing else.
\<close>

definition scenario_C_doc :: json where
  "scenario_C_doc = JObj [(''stats'', JObj [(''minecraft:mined'', JObj [(''A'', JInt 3)])])]"

definition scenario_C_database :: database where
  "scenario_C_database =
     \<lparr>players = (\<lambda>u. if u = ''steve'' then
                        Some \<lparr>p_name = Some (JStr ''Steve''), first_seen = 1, last_seen = 1\<rparr>
                      else None),
      raw_tables = (\<lambda>t u. None),
      section_tables =
        (\<lambda>t. if t = ''player_stats_mined'' then
                \<lparr>rows = (\<lambda>uk. if uk = (''steve'', ''A'') then
                                 Some \<lparr>row_id = 1, stat_value = 1, updated_at = 1\<rparr>
                               else if uk = (''steve'', ''B'') then
                                 Some \<lparr>row_id = 2, stat_value = 2, updated_at = 1\<rparr>
                               else None),
                 auto_increment = 3\<rparr>
              else if t = ''player_stats_used'' then
                \<lparr>rows = (\<lambda>uk. if uk = (''steve'', ''U'') then
                                 Some \<lparr>row_id = 1, stat_value = 7, updated_at = 1\<rparr>
                               else None),
                 auto_increment = 2\<rparr>
              else \<lparr>rows = (\<lambda>uk. None), auto_increment = 1\<rparr>)\<rparr>"

definition scenario_C_world :: world where
  "scenario_C_world =
     \<lparr>on_disk =
        \<lparr>world_stats = Some [(''steve.json'', Decoded scenario_C_doc)],
         world_usercache = None,
         temp_roots = (\<lambda>p. None)\<rparr>,
      stored = scenario_C_database\<rparr>"

text \<open>A stats directory with one valid file, one file that does not decode, and a text file.\<close>

definition faulty_world :: world where
  "faulty_world =
     \<lparr>on_disk =
        \<lparr>world_stats =
           Some [(''steve.json'', Decoded scenario_C_doc),
                 (''alex.json'', Raises JSONDecodeError),
                 (''notes.txt'', Raises JSONDecodeError)],
         world_usercache = None,
         temp_roots = (\<lambda>p. None)\<rparr>,
      stored = scenario_C_database\<rparr>"

text \<open>
  A stats directory with one valid file and one file whose bytes are not UTF-8: reading
  it raises \<^verbatim>\<open>UnicodeDecodeError\<close>.
\<close>

definition non_utf8_world :: world where
  "non_utf8_world =
     \<lparr>on_disk =
        \<lparr>world_stats =
           Some [(''steve.json'', Decoded scenario_C_doc),
                 (''alex.json'', Raises UnicodeDecodeError)],
         world_usercache = None,
         temp_roots = (\<lambda>p. None)\<rparr>,
      stored = scenario_C_database\<rparr>"

section \<open>Properties of the Stat Parser\<close>

lemma dict_set_fresh: "k \<notin> set (map fst d) \<Longrightarrow> dict_set d k v = d @ [(k, v)]"
  by (induction d) auto

lemma py_int_error: "py_int v = Inl e \<Longrightarrow> caught_by [TypeError, ValueError] e \<or> is_infinite v"
  by (induction v rule: py_int.induct)
     (auto simp: caught_by_def isinstance_def is_infinite_def split: option.splits)

lemma retained_entries_Cons:
  "retained_entries ((k, v) # items) =
     (case py_int v of Inr i \<Rightarrow> [(k, i)] | Inl e \<Rightarrow> []) @ retained_entries items"
  by (simp add: retained_entries_def)


lemma clean_items_retained:
  "distinct (map fst cleaned @ map fst items) \<Longrightarrow> \<forall>kv \<in> set items. \<not> is_infinite (snd kv)
     \<Longrightarrow> clean_items items cleaned = Inr (cleaned @ retained_entries items)"
proof (induction items arbitrary: cleaned)
  case Nil
  then show ?case by (simp add: retained_entries_def)
next
  case (Cons kv items)
  obtain k v where kv: "kv = (k, v)" by (cases kv)
  show ?case
  proof (cases "py_int v")
    case (Inl e)
    with Cons.prems kv have "caught_by [TypeError, ValueError] e"
      using py_int_error by fastforce
    moreover have "clean_items items cleaned = Inr (cleaned @ retained_entries items)"
      using Cons.prems by (intro Cons.IH) auto
    ultimately show ?thesis using Inl kv by (simp add: retained_entries_Cons)
  next
    case (Inr i)
    have fresh: "k \<notin> set (map fst cleaned)" using Cons.prems kv by auto
    have "clean_items items (cleaned @ [(k, i)]) = Inr ((cleaned @ [(k, i)]) @ retained_entries items)"
      using Cons.prems kv by (intro Cons.IH) auto
    then show ?thesis using Inr kv fresh by (simp add: retained_entries_Cons dict_set_fresh)
  qed
qed

lemma expected_from_Cons:
  "expected_from d (c # cs) =
     (case map_of d c of
        Some (JObj items) \<Rightarrow>
          if retained_entries items = [] then [] else [(c, retained_entries items)]
      | _ \<Rightarrow> []) @ expected_from d cs"
  by (simp add: expected_from_def)

lemma parse_sections_expected:
  "distinct (map fst secs @ cs)
     \<Longrightarrow> \<forall>c \<in> set cs. case map_of d c of Some x \<Rightarrow> well_shaped_category x | None \<Rightarrow> True
     \<Longrightarrow> parse_sections (JObj d) cs secs = Inr (secs @ expected_from d cs)"
proof (induction cs arbitrary: secs)
  case Nil
  then show ?case by (simp add: expected_from_def)
next
  case (Cons c cs)
  have fresh: "c \<notin> set (map fst secs)" using Cons.prems by auto
  have step: "parse_sections (JObj d) cs secs' = Inr (secs' @ expected_from d cs)"
    if "secs' = secs \<or> (\<exists>st. secs' = secs @ [(c, st)])" for secs'
  proof (intro Cons.IH)
    show "distinct (map fst secs' @ cs)"
      using that Cons.prems(1) by (fastforce simp: disjoint_iff)
    show "\<forall>c \<in> set cs. case map_of d c of Some x \<Rightarrow> well_shaped_category x | None \<Rightarrow> True"
      using Cons.prems(2) by simp
  qed
  show ?case
  proof (cases "map_of d c")
    case None
    then show ?thesis using step[of secs] by (simp add: py_get_def expected_from_Cons)
  next
    case (Some x)
    show ?thesis
    proof (cases "\<exists>items. x = JObj items")
      case False
      then show ?thesis using Some step[of secs]
        by (cases x) (simp_all add: py_get_def expected_from_Cons)
    next
      case True
      then obtain items where x: "x = JObj items" by blast
      have "well_shaped_category x" using Cons.prems(2) Some by simp
      then have "clean_items items [] = Inr (retained_entries items)"
        using x clean_items_retained[of "[]" items] by (simp add: well_shaped_category_def)
      then show ?thesis
        using Some x fresh step[of secs] step[of "secs @ [(c, retained_entries items)]"]
        by (simp add: py_get_def expected_from_Cons dict_set_fresh)
    qed
  qed
qed

lemma SECTION_KEYS_distinct: "distinct SECTION_KEYS"
  by (simp add: SECTION_KEYS_def)

lemma parse_stats_expected:
  assumes "stats_object data = Some d" and "well_shaped_stats d"
  shows "parse_stats (Decoded data) = Inr (Some (expected_from d SECTION_KEYS, data))"
proof -
  have ps: "parse_sections (JObj d) SECTION_KEYS [] = Inr ([] @ expected_from d SECTION_KEYS)"
    using assms(2) SECTION_KEYS_distinct
    by (intro parse_sections_expected) (simp_all add: well_shaped_stats_def)
  from assms(1) obtain doc where doc: "data = JObj doc"
    by (cases data) (simp_all add: stats_object_def)
  show ?thesis
  proof (cases "map_of doc ''stats''")
    case None
    then have "d = []" using assms(1) doc by (simp add: stats_object_def)
    then show ?thesis using None doc ps by (simp add: parse_stats_def py_get_def)
  next
    case (Some x)
    then have "x = JObj d" using assms(1) doc
      by (cases x) (simp_all add: stats_object_def)
    then show ?thesis using Some doc ps by (simp add: parse_stats_def py_get_def)
  qed
qed

lemma retained_entries_iff:
  "(k, i) \<in> set (retained_entries items) \<longleftrightarrow> (\<exists>v. (k, v) \<in> set items \<and> py_int v = Inr i)"
proof (induction items)
  case Nil
  then show ?case by (simp add: retained_entries_def)
next
  case (Cons kv items)
  obtain k' v' where "kv = (k', v')" by (cases kv)
  with Cons show ?case by (auto simp: retained_entries_Cons split: sum.splits)
qed

lemma map_of_expected_from:
  "distinct cs \<Longrightarrow> map_of (expected_from d cs) c =
     (if c \<in> set cs then
        (case map_of d c of
           Some (JObj items) \<Rightarrow>
             if retained_entries items = [] then None else Some (retained_entries items)
         | _ \<Rightarrow> None)
      else None)"
proof (induction cs)
  case Nil
  then show ?case by (simp add: expected_from_def)
next
  case (Cons a cs)
  then show ?case
    by (auto simp: expected_from_Cons split: option.splits json.splits)
qed

text \<open>
  Claim C4, as amended. For a decoded document that is an object whose \<^verbatim>\<open>stats\<close> member is
  absent or an object, and in which every allow-listed category that is a mapping has
  distinct keys and no infinite floating-point value, \<^verbatim>\<open>parse_stats\<close> returns a result: for
  each of the 9 allow-listed categories exactly the entries whose value coerces to an
  integer; a category that is absent, not a mapping, or left without retained entries is
  omitted; the returned raw document is the decoded input.
\<close>

theorem parse_stats_retains_coercible_entries:
  "stats_object data = Some d \<Longrightarrow> well_shaped_stats d \<Longrightarrow>
     parse_stats (Decoded data) = Inr (Some (expected_sections d, data)) \<and>
     (\<forall>c. map_of (expected_sections d) c =
            (if c \<in> set SECTION_KEYS then
               (case map_of d c of
                  Some (JObj items) \<Rightarrow>
                    if retained_entries items = [] then None
                    else Some (retained_entries items)
                | _ \<Rightarrow> None)
             else None)) \<and>
     (\<forall>items k i. (k, i) \<in> set (retained_entries items)
                    \<longleftrightarrow> (\<exists>v. (k, v) \<in> set items \<and> py_int v = Inr i))"
  using parse_stats_expected[of data d] map_of_expected_from[OF SECTION_KEYS_distinct, of d]
    retained_entries_iff
  by (simp add: expected_sections_def)

text \<open>
  Scenario A is an instance: the mined category retains exactly
  \<^verbatim>\<open>{"minecraft:stone": 42}\<close>, and \<^verbatim>\<open>"minecraft:dirt"\<close> is dropped.
\<close>

theorem parse_stats_scenario_A:
  "stats_object scenario_A =
     Some [(''minecraft:mined'',
            JObj [(''minecraft:stone'', JInt 42), (''minecraft:dirt'', JStr ''oops'')])] \<and>
   well_shaped_stats
     [(''minecraft:mined'',
       JObj [(''minecraft:stone'', JInt 42), (''minecraft:dirt'', JStr ''oops'')])] \<and>
   parse_stats (Decoded scenario_A) =
     Inr (Some ([(''minecraft:mined'', [(''minecraft:stone'', 42)])], scenario_A))"
proof -
  let ?d = "[(''minecraft:mined'',
              JObj [(''minecraft:stone'', JInt 42), (''minecraft:dirt'', JStr ''oops'')])]"
  have h1: "stats_object scenario_A = Some ?d" by code_simp
  have h2: "well_shaped_stats ?d" by code_simp
  have e: "expected_sections ?d = [(''minecraft:mined'', [(''minecraft:stone'', 42)])]"
    by code_simp
  from parse_stats_retains_coercible_entries[OF h1 h2] e h1 h2 show ?thesis by simp
qed

text \<open>
  Claim C4 as stated speaks of every document that decodes. The document \<^verbatim>\<open>[]\<close> decodes,
  and \<^verbatim>\<open>parse_stats\<close> has no result for it: \<^verbatim>\<open>data.get\<close> raises \<^verbatim>\<open>AttributeError\<close>.
\<close>

theorem parse_stats_array_document_has_no_result:
  "\<not> (\<exists>secs. parse_stats (Decoded (JArr [])) = Inr (Some (secs, JArr [])))"
  by (simp add: parse_stats_def py_get_def)

section \<open>Transactions and the structure of a run\<close>

lemma execute_committed: "execute srv s c = (r, c') \<Longrightarrow> committed c' = committed c"
  by (auto simp: execute_def split: if_splits)

lemma upsert_player_committed: "upsert_player srv c u n = (r, c') \<Longrightarrow> committed c' = committed c"
  by (auto simp: upsert_player_def split: sum.splits dest!: execute_committed)

lemma upsert_raw_committed: "upsert_raw srv c t u raw = (r, c') \<Longrightarrow> committed c' = committed c"
  by (auto simp: upsert_raw_def dest!: execute_committed)

lemma upsert_section_committed:
  "upsert_section srv c t u stats = (r, c') \<Longrightarrow> committed c' = committed c"
  by (auto simp: upsert_section_def split: prod.splits option.splits if_splits
           dest!: execute_committed)

lemma upsert_sections_committed:
  "upsert_sections srv tmap u secs c = (r, c') \<Longrightarrow> committed c' = committed c"
proof (induction secs arbitrary: c)
  case Nil
  then show ?case by simp
next
  case (Cons a secs)
  obtain key stats where a: "a = (key, stats)" by (cases a)
  show ?case
    using Cons.prems Cons.IH
    by (auto simp: a split: option.splits prod.splits if_splits dest!: upsert_section_committed)
qed

lemma store_player_committed:
  "store_player srv m names u secs raw c = (r, c') \<Longrightarrow> committed c' = committed c"
  by (auto simp: store_player_def split: prod.splits option.splits
           dest!: upsert_player_committed upsert_raw_committed upsert_sections_committed)

lemma process_files_committed:
  "process_files srv m names files c n = (r, c') \<Longrightarrow> committed c' = committed c"
proof (induction files arbitrary: c n)
  case Nil
  then show ?case by simp
next
  case (Cons a files)
  obtain fname f where a: "a = (fname, f)" by (cases a)
  show ?case
    using Cons.prems Cons.IH
    by (auto simp: a split: sum.splits option.splits prod.splits dest!: store_player_committed)
qed

lemma ensure_table_rows:
  "committed c = pending c \<Longrightarrow>
     committed (snd (ensure_table srv t c)) = committed c \<and>
     pending (snd (ensure_table srv t c)) = pending c"
  by (simp add: ensure_table_def execute_def commit_def)

lemma ensure_section_tables_rows:
  "committed c = pending c \<Longrightarrow>
     committed (snd (ensure_section_tables srv ts c)) = committed c \<and>
     pending (snd (ensure_section_tables srv ts c)) = pending c"
proof (induction ts arbitrary: c)
  case Nil
  then show ?case by simp
next
  case (Cons t ts)
  obtain r c1 where e: "ensure_table srv t c = (r, c1)" by (cases "ensure_table srv t c")
  have c1: "committed c1 = committed c \<and> pending c1 = pending c"
    using ensure_table_rows[OF Cons.prems, of srv t] e by simp
  then have "committed c1 = pending c1" using Cons.prems by simp
  from Cons.IH[OF this] c1 e show ?case
    by (cases r) (simp_all add: ensure_section_table_def)
qed

lemma sync_body_cases:
  obtains (schema_failed) e c' where
      "sync_body srv m names entries \<lparr>committed = db, pending = db\<rparr> = (Inl e, c')"
      "committed c' = db"
  | (batch)
      "sync_body srv m names entries \<lparr>committed = db, pending = db\<rparr> =
         (case process_files srv m names (glob_json entries)
                 \<lparr>committed = db, pending = db\<rparr> 0 of
            (Inl e, c') \<Rightarrow> (Inl e, c')
          | (Inr processed, c') \<Rightarrow> (Inr processed, commit c'))"
proof -
  let ?c = "\<lparr>committed = db, pending = db\<rparr>"
  have eq: "committed ?c = pending ?c" by simp
  obtain r1 c1 where e1: "ensure_table srv ''players'' ?c = (r1, c1)"
    by (cases "ensure_table srv ''players'' ?c")
  have k1: "committed c1 = db \<and> pending c1 = db"
    using ensure_table_rows[OF eq, of srv "''players''"] e1 by simp
  obtain r2 c2 where e2: "ensure_table srv (raw_table m) c1 = (r2, c2)"
    by (cases "ensure_table srv (raw_table m) c1")
  have k2: "committed c2 = db \<and> pending c2 = db"
    using ensure_table_rows[of c1 srv "raw_table m"] e2 k1 by simp
  obtain r3 c3 where e3: "ensure_section_tables srv (map snd (section_table_map m)) c2 = (r3, c3)"
    by (cases "ensure_section_tables srv (map snd (section_table_map m)) c2")
  have k3: "committed c3 = db \<and> pending c3 = db"
    using ensure_section_tables_rows[of c2 srv "map snd (section_table_map m)"] e3 k2 by simp
  then have c3: "c3 = ?c" by (cases c3) simp
  show ?thesis
  proof (cases r1)
    case (Some e)
    then show ?thesis using e1 k1 schema_failed[of e c1]
      by (simp add: sync_body_def ensure_players_table_def)
  next
    case None
    note n1 = this
    show ?thesis
    proof (cases r2)
      case (Some e)
      then show ?thesis using n1 e1 e2 k2 schema_failed[of e c2]
        by (simp add: sync_body_def ensure_players_table_def ensure_raw_table_def)
    next
      case None
      note n2 = this
      show ?thesis
      proof (cases r3)
        case (Some e)
        then show ?thesis using n1 n2 e1 e2 e3 k3 schema_failed[of e c3]
          by (simp add: sync_body_def ensure_players_table_def ensure_raw_table_def)
      next
        case None
        then show ?thesis using n1 n2 e1 e2 e3 c3 batch
          by (simp add: sync_body_def ensure_players_table_def ensure_raw_table_def)
      qed
    qed
  qed
qed

lemma sync_cases:
  obtains (aborted) e d where "sync cfg env w = (Inl e, w\<lparr>on_disk := d\<rparr>)"
  | (ran) fw d entries uc cl names where
      "maybe_fetch_world_via_sftp (sftp cfg) (temp_dir cfg) (transfer env) (on_disk w) = (Inr fw, d)"
      "resolve_source fw d = (Some entries, uc, cl)"
      "load_usercache uc = Inr names"
      "connect_error (server env) = None"
      "sync cfg env w =
         (fst (sync_body (server env) (mysql cfg) names entries
                 \<lparr>committed = stored w, pending = stored w\<rparr>),
          \<lparr>on_disk = (case cl of None \<Rightarrow> d | Some tmp \<Rightarrow> rmtree tmp d),
           stored = committed (snd (sync_body (server env) (mysql cfg) names entries
                 \<lparr>committed = stored w, pending = stored w\<rparr>))\<rparr>)"
proof -
  obtain r d where mf: "maybe_fetch_world_via_sftp (sftp cfg) (temp_dir cfg) (transfer env) (on_disk w) = (r, d)"
    by (cases "maybe_fetch_world_via_sftp (sftp cfg) (temp_dir cfg) (transfer env) (on_disk w)")
  show ?thesis
  proof (cases r)
    case (Inl e)
    then show ?thesis using mf aborted[of e d] by (simp add: sync_def)
  next
    case (Inr fw)
    obtain st uc cl where rs: "resolve_source fw d = (st, uc, cl)"
      by (cases "resolve_source fw d")
    show ?thesis
    proof (cases st)
      case None
      then show ?thesis using mf Inr rs aborted[of FileNotFoundError d] by (simp add: sync_def)
    next
      case (Some entries)
      note st = this
      show ?thesis
      proof (cases "load_usercache uc")
        case (Inl e)
        then show ?thesis using mf Inr rs st aborted[of e d] by (simp add: sync_def)
      next
        case names: (Inr names)
        show ?thesis
        proof (cases "connect_error (server env)")
          case (Some e)
          then show ?thesis using mf Inr rs st names aborted[of e d] by (simp add: sync_def)
        next
          case None
          then show ?thesis using mf Inr rs st names ran[of fw d entries uc cl names]
            by (simp add: sync_def split: prod.splits)
        qed
      qed
    qed
  qed
qed

section \<open>Properties of the Usercache Loader\<close>

lemma key_eq_JStr: "key_eq k (JStr u) = (k = JStr u)" "key_eq (JStr u) k = (k = JStr u)"
  by (cases k; auto simp: key_eq_def)+

lemma name_get_name_set:
  "name_get (name_set d k v) u = (if k = JStr u then Some v else name_get d u)"
proof (induction d)
  case Nil
  then show ?case by (simp add: key_eq_JStr)
next
  case (Cons a d)
  obtain k' v' where a: "a = (k', v')" by (cases a)
  show ?case using Cons by (auto simp: a key_eq_JStr)
qed

lemma record_shaped_step:
  assumes "record_shaped e"
  shows "collect_names (e # es) acc =
           (case both_fields e of
              Some (k, v) \<Rightarrow> collect_names es (name_set acc k v)
            | None \<Rightarrow> collect_names es acc)"
proof -
  from assms obtain d where e: "e = JObj d" by (cases e) (simp_all add: record_shaped_def is_object_def)
  have in_dom: "(k \<in> set (map fst d)) = (map_of d k \<noteq> None)" for k :: string
    by (simp add: map_of_eq_None_iff)
  show ?thesis
    using assms
    by (auto simp: e both_fields_def record_shaped_def py_contains_def py_getitem_def in_dom
             simp del: set_map split: option.splits bool.splits)
qed

lemma collect_names_mapping:
  "list_all record_shaped es \<Longrightarrow>
     \<exists>d. collect_names es acc = Inr d \<and>
         (\<forall>u. name_get d u =
                (case usercache_mapping es u of Some v \<Rightarrow> Some v | None \<Rightarrow> name_get acc u))"
proof (induction es arbitrary: acc)
  case Nil
  then show ?case by simp
next
  case (Cons e es)
  then have e: "record_shaped e" and es: "list_all record_shaped es" by simp_all
  show ?case
  proof (cases "both_fields e")
    case None
    have "collect_names (e # es) acc = collect_names es acc"
      using record_shaped_step[OF e, of es acc] None by (simp del: collect_names.simps)
    moreover from Cons.IH[OF es, of acc] obtain d where
      d: "collect_names es acc = Inr d"
         "\<forall>u. name_get d u = (case usercache_mapping es u of Some v \<Rightarrow> Some v
                               | None \<Rightarrow> name_get acc u)" by blast
    moreover have "\<forall>u. usercache_mapping (e # es) u = usercache_mapping es u"
      using None by (simp split: option.splits)
    ultimately show ?thesis by (simp del: collect_names.simps usercache_mapping.simps)
  next
    case (Some kv)
    obtain k v where kv: "kv = (k, v)" by (cases kv)
    from Cons.IH[OF es, of "name_set acc k v"] obtain d where
      d: "collect_names es (name_set acc k v) = Inr d"
         "\<forall>u. name_get d u = (case usercache_mapping es u of Some v \<Rightarrow> Some v
                               | None \<Rightarrow> name_get (name_set acc k v) u)" by blast
    have "collect_names (e # es) acc = Inr d"
      using record_shaped_step[OF e, of es acc] Some kv d(1)
      by (simp del: collect_names.simps)
    moreover have "\<forall>u. name_get d u =
        (case usercache_mapping (e # es) u of Some v \<Rightarrow> Some v | None \<Rightarrow> name_get acc u)"
      using d(2) Some kv by (auto simp: name_get_name_set split: option.splits)
    ultimately show ?thesis by blast
  qed
qed

text \<open>
  Claim C8, as amended. Loading the usercache raises nothing and yields the empty mapping
  when the file is missing, when opening or reading it raises \<^verbatim>\<open>OSError\<close>, or when decoding
  it raises \<^verbatim>\<open>JSONDecodeError\<close>; and when the document decodes to an array of objects whose
  identifier, where both fields are present, is not itself an array or an object, the
  records missing either field are skipped and the others are returned as the
  identifier-to-name mapping. Nothing is said of a file that fails in another way (bytes
  that are not UTF-8) or decodes to another shape.
\<close>

theorem load_usercache_tolerant:
  "load_usercache None = Inr [] \<and>
   (caught_by [JSONDecodeError, OSError] e \<longrightarrow> load_usercache (Some (Raises e)) = Inr []) \<and>
   (list_all record_shaped es \<longrightarrow>
      (\<exists>d. load_usercache (Some (Decoded (JArr es))) = Inr d \<and>
           (\<forall>u. name_get d u = usercache_mapping es u)))"
proof -
  have "\<exists>d. load_usercache (Some (Decoded (JArr es))) = Inr d \<and>
           (\<forall>u. name_get d u = usercache_mapping es u)" if "list_all record_shaped es"
  proof -
    from collect_names_mapping[OF that, of "[]"] obtain d where
      a: "collect_names es [] = Inr d" and
      b: "\<forall>u. name_get d u =
            (case usercache_mapping es u of Some v \<Rightarrow> Some v | None \<Rightarrow> name_get [] u)"
      by blast
    have "\<forall>u. name_get d u = usercache_mapping es u"
      using b by (simp split: option.splits)
    then show ?thesis using a
      by (simp add: load_usercache_def py_iter_def)
  qed
  then show ?thesis by (simp add: load_usercache_def)
qed

text \<open>
  An instance: a file that does not decode, and a usercache of three records of which one
  has no name.
\<close>

theorem load_usercache_example:
  "caught_by [JSONDecodeError, OSError] JSONDecodeError \<and>
   load_usercache (Some (Raises JSONDecodeError)) = Inr [] \<and>
   list_all record_shaped usercache_example \<and>
   (\<exists>d. load_usercache (Some (Decoded (JArr usercache_example))) = Inr d \<and>
        name_get d ''steve'' = Some (JStr ''Steve2'') \<and> name_get d ''alex'' = None)"
proof -
  have h1: "caught_by [JSONDecodeError, OSError] JSONDecodeError" by code_simp
  have h2: "list_all record_shaped usercache_example" by code_simp
  have m1: "usercache_mapping usercache_example ''steve'' = Some (JStr ''Steve2'')" by code_simp
  have m2: "usercache_mapping usercache_example ''alex'' = None" by code_simp
  from load_usercache_tolerant[of JSONDecodeError usercache_example] h1 h2 m1 m2
  show ?thesis by auto
qed

text \<open>
  Claim C8 as stated says that loading never raises. The document \<^verbatim>\<open>[1]\<close> decodes, and
  the test \<^verbatim>\<open>"uuid" in entry\<close> on the number raises \<^verbatim>\<open>TypeError\<close>, which the handler of
  line 86 does not catch.
\<close>

theorem load_usercache_raises_on_number_record:
  "load_usercache (Some (Decoded (JArr [JInt 1]))) = Inl TypeError"
  by code_simp

section \<open>Evaluating Scenario A\<close>

lemma scenario_A_parsed:
  "parse_stats (Decoded scenario_A) =
     Inr (Some ([(''minecraft:mined'', [(''minecraft:stone'', 42)])], scenario_A))"
  by code_simp

lemma scenario_A_glob:
  "glob_json [(''11111111-1111-1111-1111-111111111111.json'', Decoded scenario_A)] =
     [(''11111111-1111-1111-1111-111111111111.json'', Decoded scenario_A)]"
  by code_simp

lemma scenario_A_source:
  "maybe_fetch_world_via_sftp (sftp local_config) (temp_dir local_config) rem
      (on_disk scenario_A_world) = (Inr None, on_disk scenario_A_world)"
  "resolve_source None (on_disk scenario_A_world) =
     (Some [(''11111111-1111-1111-1111-111111111111.json'', Decoded scenario_A)], None, None)"
  "load_usercache None = Inr []"
  by (simp_all add: maybe_fetch_world_via_sftp_def local_config_def resolve_source_def
        scenario_A_world_def load_usercache_def)

lemma local_config_mysql: "mysql local_config = default_mysql"
  by (simp add: local_config_def)

lemma scenario_A_stored: "stored scenario_A_world = empty_database"
  by (simp add: scenario_A_world_def)

lemmas run_defs =
  sync_def sync_body_def ensure_players_table_def ensure_raw_table_def
  ensure_section_table_def ensure_table_def execute_def commit_def store_player_def
  upsert_player_def upsert_raw_def upsert_section_def section_table_map_def
  default_mysql_def

lemma scenario_A_refused:
  "fst (sync local_config \<lparr>transfer = rem, server = refusing_inserts t\<rparr> scenario_A_world)
     = Inl DatabaseError"
  by (simp add: run_defs scenario_A_source scenario_A_glob scenario_A_parsed refusing_inserts_def
        local_config_mysql scenario_A_stored)

lemma scenario_A_accepted:
  "fst (sync local_config \<lparr>transfer = rem, server = accepting_server t\<rparr> scenario_A_world)
     = Inr 1"
  by (simp add: run_defs scenario_A_source scenario_A_glob scenario_A_parsed accepting_server_def
        local_config_mysql scenario_A_stored)

section \<open>One transaction per run\<close>

text \<open>
  Claim C2. The data writes of a run happen in one transaction. If \<^verbatim>\<open>sync\<close> ends with an
  exception, whatever raised it, the committed rows are those from before the run: no
  row written during the batch is committed. If it ends normally, the loop has processed
  every discovered file without an exception, and the committed rows are the rows of
  the transaction at the end of the loop.
\<close>

theorem sync_commits_all_or_nothing:
  "(fst (sync cfg env w) = Inl e \<longrightarrow> stored (snd (sync cfg env w)) = stored w) \<and>
   (fst (sync cfg env w) = Inr n \<longrightarrow>
      (\<exists>fw d entries uc cl names c.
         maybe_fetch_world_via_sftp (sftp cfg) (temp_dir cfg) (transfer env) (on_disk w)
           = (Inr fw, d) \<and>
         resolve_source fw d = (Some entries, uc, cl) \<and>
         load_usercache uc = Inr names \<and>
         process_files (server env) (mysql cfg) names (glob_json entries)
           \<lparr>committed = stored w, pending = stored w\<rparr> 0 = (Inr n, c) \<and>
         stored (snd (sync cfg env w)) = pending c))"
proof (cases rule: sync_cases[of cfg env w])
  case (aborted e' d)
  then show ?thesis by simp
next
  case (ran fw d entries uc cl names)
  let ?c = "\<lparr>committed = stored w, pending = stored w\<rparr>"
  show ?thesis
  proof (cases rule: sync_body_cases[of "server env" "mysql cfg" names entries "stored w"])
    case (schema_failed e' c')
    then show ?thesis using ran(5) by simp
  next
    case batch
    obtain r c1 where pf: "process_files (server env) (mysql cfg) names (glob_json entries) ?c 0 = (r, c1)"
      by (cases "process_files (server env) (mysql cfg) names (glob_json entries) ?c 0")
    have k: "committed c1 = stored w" using process_files_committed[OF pf] by simp
    show ?thesis
    proof (cases r)
      case (Inl e')
      then show ?thesis using ran(5) batch pf k by simp
    next
      case (Inr n')
      have "sync cfg env w = (Inr n', \<lparr>on_disk = (case cl of None \<Rightarrow> d | Some tmp \<Rightarrow> rmtree tmp d), stored = pending c1\<rparr>)"
        using ran(5) batch pf Inr by (simp add: commit_def)
      then show ?thesis using ran(1-3) pf Inr by auto
    qed
  qed
qed

text \<open>
  Two runs of Scenario A: one against a server that refuses the bulk insert, one against
  a server that accepts every statement.
\<close>

theorem sync_commits_all_or_nothing_example:
  "fst (sync local_config \<lparr>transfer = unreachable_host, server = refusing_inserts 5\<rparr>
          scenario_A_world) = Inl DatabaseError \<and>
   stored (snd (sync local_config \<lparr>transfer = unreachable_host, server = refusing_inserts 5\<rparr>
                  scenario_A_world)) = stored scenario_A_world \<and>
   fst (sync local_config \<lparr>transfer = unreachable_host, server = accepting_server 5\<rparr>
          scenario_A_world) = Inr 1 \<and>
   (\<exists>c. process_files (accepting_server 5) default_mysql []
           (glob_json [(''11111111-1111-1111-1111-111111111111.json'', Decoded scenario_A)])
           \<lparr>committed = empty_database, pending = empty_database\<rparr> 0 = (Inr 1, c) \<and>
        stored (snd (sync local_config
                       \<lparr>transfer = unreachable_host, server = accepting_server 5\<rparr>
                       scenario_A_world)) = pending c)"
proof -
  let ?bad = "\<lparr>transfer = unreachable_host, server = refusing_inserts 5\<rparr>"
  let ?good = "\<lparr>transfer = unreachable_host, server = accepting_server 5\<rparr>"
  have a: "fst (sync local_config ?bad scenario_A_world) = Inl DatabaseError"
    by (rule scenario_A_refused)
  have b: "fst (sync local_config ?good scenario_A_world) = Inr 1"
    by (rule scenario_A_accepted)
  from sync_commits_all_or_nothing[of local_config ?bad scenario_A_world DatabaseError 0] a
  have a': "stored (snd (sync local_config ?bad scenario_A_world)) = stored scenario_A_world"
    by simp
  from sync_commits_all_or_nothing[of local_config ?good scenario_A_world DatabaseError 1] b
  obtain fw d entries uc cl names c where
    s: "maybe_fetch_world_via_sftp (sftp local_config) (temp_dir local_config) (transfer ?good)
          (on_disk scenario_A_world) = (Inr fw, d)"
       "resolve_source fw d = (Some entries, uc, cl)"
       "load_usercache uc = Inr names"
       "process_files (server ?good) (mysql local_config) names (glob_json entries)
          \<lparr>committed = stored scenario_A_world, pending = stored scenario_A_world\<rparr> 0 = (Inr 1, c)"
       "stored (snd (sync local_config ?good scenario_A_world)) = pending c"
    by auto
  from s(1) have "fw = None" "d = on_disk scenario_A_world"
    by (simp_all add: scenario_A_source)
  with s(2) have "entries = [(''11111111-1111-1111-1111-111111111111.json'', Decoded scenario_A)]"
    "uc = None" by (simp_all add: scenario_A_source)
  with s(3) have "names = []" by (simp add: scenario_A_source)
  with s(4) s(5) \<open>entries = _\<close> have
    "\<exists>c. process_files (accepting_server 5) default_mysql []
           (glob_json [(''11111111-1111-1111-1111-111111111111.json'', Decoded scenario_A)])
           \<lparr>committed = empty_database, pending = empty_database\<rparr> 0 = (Inr 1, c) \<and>
        stored (snd (sync local_config ?good scenario_A_world)) = pending c"
    by (auto simp: local_config_mysql scenario_A_stored)
  with a a' b show ?thesis by simp
qed

section \<open>Failures of the remote fetch\<close>

text \<open>
  Claim C3 at a host that cannot be reached. \<^verbatim>\<open>paramiko.Transport((host, port))\<close> raises
  at line 189, after the temporary root was created and before the \<^verbatim>\<open>try\<close> of line 190
  is entered; in \<^verbatim>\<open>sync\<close> the handler of lines 339-343 finds \<^verbatim>\<open>cleanup_fn\<close> still \<^verbatim>\<open>None\<close>.
  The run aborts and writes nothing to the database, but the temporary root stays on disk.
\<close>

theorem unreachable_host_leaves_temp_root:
  "fst (sync remote_config \<lparr>transfer = unreachable_host, server = accepting_server 5\<rparr>
          scenario_A_world) = Inl SSHException \<and>
   temp_roots (on_disk scenario_A_world) ''/tmp/mcstats_sftp_a1'' = None \<and>
   temp_roots (on_disk (snd (sync remote_config
        \<lparr>transfer = unreachable_host, server = accepting_server 5\<rparr> scenario_A_world)))
      ''/tmp/mcstats_sftp_a1'' = Some \<lparr>usercache_json = None, stats_files = None\<rparr> \<and>
   stored (snd (sync remote_config
        \<lparr>transfer = unreachable_host, server = accepting_server 5\<rparr> scenario_A_world))
      = stored scenario_A_world"
  by (simp add: sync_def maybe_fetch_world_via_sftp_def remote_config_def unreachable_host_def
        scenario_A_world_def)

section \<open>Documents that are not objects\<close>

lemma parse_stats_non_object:
  "\<not> is_object j \<Longrightarrow> parse_stats (Decoded j) = Inl AttributeError"
  by (cases j) (simp_all add: parse_stats_def py_get_def is_object_def)

lemma parse_stats_skip_iff:
  "(parse_stats f = Inr None) = (\<exists>e. f = Raises e \<and> caught_by [JSONDecodeError, OSError] e)"
  by (cases f) (auto simp: parse_stats_def split: sum.splits)

lemma process_files_aborts:
  "(fname, Decoded j) \<in> set files \<Longrightarrow> \<not> is_object j
     \<Longrightarrow> \<exists>e. fst (process_files srv m names files c n) = Inl e"
proof (induction files arbitrary: c n)
  case Nil
  then show ?case by simp
next
  case (Cons a files)
  obtain g f where a: "a = (g, f)" by (cases a)
  show ?case
  proof (cases "a = (fname, Decoded j)")
    case True
    then show ?thesis using Cons.prems(2) a by (simp add: parse_stats_non_object)
  next
    case False
    then have "(fname, Decoded j) \<in> set files" using Cons.prems(1) by simp
    from Cons.IH[OF this Cons.prems(2)] show ?thesis
      by (auto simp: a split: sum.splits option.splits prod.splits)
  qed
qed

lemma sync_failure_keeps_rows:
  "fst (sync cfg env w) = Inl e \<Longrightarrow> stored (snd (sync cfg env w)) = stored w"
proof (cases rule: sync_cases[of cfg env w])
  case (aborted e' d)
  then show ?thesis by simp
next
  case (ran fw d entries uc cl names)
  assume f: "fst (sync cfg env w) = Inl e"
  let ?c = "\<lparr>committed = stored w, pending = stored w\<rparr>"
  show ?thesis
  proof (cases rule: sync_body_cases[of "server env" "mysql cfg" names entries "stored w"])
    case (schema_failed e' c')
    then show ?thesis using ran(5) by simp
  next
    case batch
    obtain r c1 where pf: "process_files (server env) (mysql cfg) names (glob_json entries) ?c 0 = (r, c1)"
      by (cases "process_files (server env) (mysql cfg) names (glob_json entries) ?c 0")
    have k: "committed c1 = stored w" using process_files_committed[OF pf] by simp
    show ?thesis using f ran(5) batch pf k by (cases r) simp_all
  qed
qed

lemma sync_aborts_on_non_object:
  assumes "\<not> is_object j"
    and "maybe_fetch_world_via_sftp (sftp cfg) (temp_dir cfg) (transfer env) (on_disk w)
          = (Inr fw, d)"
    and "resolve_source fw d = (Some entries, uc, cl)"
    and "(fname, Decoded j) \<in> set entries" and "ends_with ''.json'' fname"
  shows "\<exists>e. fst (sync cfg env w) = Inl e"
proof (cases rule: sync_cases[of cfg env w])
  case (aborted e' d')
  then show ?thesis by simp
next
  case (ran fw' d' entries' uc' cl' names)
  with assms have same: "entries' = entries" by simp
  have "(fname, Decoded j) \<in> set (glob_json entries)" using assms by (simp add: glob_json_def)
  from process_files_aborts[OF this assms(1)] obtain e' where
    e': "fst (process_files (server env) (mysql cfg) names (glob_json entries)
                \<lparr>committed = stored w, pending = stored w\<rparr> 0) = Inl e'" by blast
  show ?thesis
  proof (cases rule: sync_body_cases[of "server env" "mysql cfg" names entries "stored w"])
    case (schema_failed e'' c')
    then show ?thesis using ran(5) same by simp
  next
    case batch
    then show ?thesis using ran(5) same e' by (auto split: prod.splits sum.splits)
  qed
qed

text \<open>
  Claim C9. \<^verbatim>\<open>parse_stats\<close> returns the skip result \<^verbatim>\<open>None\<close> exactly when opening or decoding
  the file raises \<^verbatim>\<open>JSONDecodeError\<close> or \<^verbatim>\<open>OSError\<close>. For a file that decodes to anything but
  an object, \<^verbatim>\<open>data.get\<close> raises \<^verbatim>\<open>AttributeError\<close> out of \<^verbatim>\<open>parse_stats\<close>; a run whose stats
  directory holds such a file under a name ending in \<^verbatim>\<open>.json\<close> ends with an exception and
  commits nothing.
\<close>

theorem non_object_document_aborts_run:
  assumes "\<not> is_object j"
    and "maybe_fetch_world_via_sftp (sftp cfg) (temp_dir cfg) (transfer env) (on_disk w)
          = (Inr fw, d)"
    and "resolve_source fw d = (Some entries, uc, cl)"
    and "(fname, Decoded j) \<in> set entries" and "ends_with ''.json'' fname"
  shows "parse_stats (Decoded j) = Inl AttributeError \<and>
     (\<forall>f. (parse_stats f = Inr None)
            = (\<exists>e. f = Raises e \<and> caught_by [JSONDecodeError, OSError] e)) \<and>
     (\<exists>e. fst (sync cfg env w) = Inl e) \<and> stored (snd (sync cfg env w)) = stored w"
proof -
  have a: "parse_stats (Decoded j) = Inl AttributeError"
    by (rule parse_stats_non_object[OF assms(1)])
  have b: "\<forall>f. (parse_stats f = Inr None)
            = (\<exists>e. f = Raises e \<and> caught_by [JSONDecodeError, OSError] e)"
    by (rule allI) (rule parse_stats_skip_iff)
  from sync_aborts_on_non_object[OF assms] obtain e where e: "fst (sync cfg env w) = Inl e"
    by (rule exE)
  have c: "stored (snd (sync cfg env w)) = stored w"
    by (rule sync_failure_keeps_rows[OF e])
  from a b e c show ?thesis by (intro conjI exI)
qed

text \<open>An instance: a stats directory with a valid file and a file holding \<^verbatim>\<open>[]\<close>.\<close>

lemma array_world_source:
  "maybe_fetch_world_via_sftp (sftp local_config) (temp_dir local_config) rem
      (on_disk array_world) = (Inr None, on_disk array_world)"
  "resolve_source None (on_disk array_world) =
     (Some [(''steve.json'', Decoded scenario_A), (''alex.json'', Decoded (JArr []))], None, None)"
  by (simp_all add: maybe_fetch_world_via_sftp_def local_config_def resolve_source_def
        array_world_def)

theorem array_document_aborts_run:
  "\<not> is_object (JArr []) \<and>
   parse_stats (Decoded (JArr [])) = Inl AttributeError \<and>
   (\<exists>e. fst (sync local_config \<lparr>transfer = unreachable_host, server = accepting_server 5\<rparr>
                array_world) = Inl e) \<and>
   stored (snd (sync local_config \<lparr>transfer = unreachable_host, server = accepting_server 5\<rparr>
                  array_world)) = stored array_world"
proof -
  let ?env = "\<lparr>transfer = unreachable_host, server = accepting_server 5\<rparr>"
  have h: "\<not> is_object (JArr [])" by (simp add: is_object_def)
  have e: "ends_with ''.json'' ''alex.json''" by code_simp
  have m: "(''alex.json'', Decoded (JArr []))
             \<in> set [(''steve.json'', Decoded scenario_A), (''alex.json'', Decoded (JArr []))]"
    by simp
  have s1: "maybe_fetch_world_via_sftp (sftp local_config) (temp_dir local_config)
              (transfer ?env) (on_disk array_world) = (Inr None, on_disk array_world)"
    by (rule array_world_source(1))
  note r = non_object_document_aborts_run[OF h s1 array_world_source(2) m e]
  from r h show ?thesis by simp
qed

section \<open>The remote world path\<close>

lemma fetch_body_ignores_world_fields:
  "fetch_body (cfg\<lparr>remote_world_path := x\<rparr>) rem rw = fetch_body cfg rem rw"
  "fetch_body (cfg\<lparr>world_name := y\<rparr>) rem rw = fetch_body cfg rem rw"
  by (simp_all add: fetch_body_def split: option.splits)

text \<open>
  Claim C10. With remote fetch enabled and both a root path and a world name configured,
  the fetch behaves, whatever explicit remote world path is configured, as it does with
  the path composed from root path and world name as the explicit path: the configured
  explicit path is overwritten and never used.
\<close>

theorem composed_remote_path_takes_precedence:
  "enabled cfg \<Longrightarrow> world_name cfg \<noteq> [] \<Longrightarrow> remote_root_path cfg \<noteq> [] \<Longrightarrow>
     maybe_fetch_world_via_sftp (cfg\<lparr>remote_world_path := explicit\<rparr>) tmp_dir rem d =
     maybe_fetch_world_via_sftp
       (cfg\<lparr>world_name := [],
            remote_world_path :=
              rstrip_slash (remote_root_path cfg) @ ''/'' @ strip_slash (world_name cfg)\<rparr>)
       tmp_dir rem d"
  by (simp add: maybe_fetch_world_via_sftp_def fetch_body_ignores_world_fields Let_def
           split: option.splits)

text \<open>
  An instance: the explicit path is \<^verbatim>\<open>/elsewhere/world\<close>, the host serves only
  \<^verbatim>\<open>/srv/minecraft/world/stats\<close>, and the fetch succeeds.
\<close>

theorem composed_remote_path_example:
  "enabled (sftp remote_config) \<and> world_name (sftp remote_config) \<noteq> [] \<and>
   remote_root_path (sftp remote_config) \<noteq> [] \<and>
   remote_world_path (sftp remote_config) = ''/elsewhere/world'' \<and>
   maybe_fetch_world_via_sftp (sftp remote_config) None serving_host empty_disk =
     maybe_fetch_world_via_sftp
       ((sftp remote_config)\<lparr>world_name := [], remote_world_path := ''/srv/minecraft/world''\<rparr>)
       None serving_host empty_disk \<and>
   fst (maybe_fetch_world_via_sftp (sftp remote_config) None serving_host empty_disk)
     = Inr (Some ''/tmp/mcstats_sftp_a1'')"
proof -
  have h: "enabled (sftp remote_config)" "world_name (sftp remote_config) \<noteq> []"
    "remote_root_path (sftp remote_config) \<noteq> []"
    "remote_world_path (sftp remote_config) = ''/elsewhere/world''"
    by (simp_all add: remote_config_def)
  have p: "rstrip_slash (remote_root_path (sftp remote_config)) @ ''/'' @
             strip_slash (world_name (sftp remote_config)) = ''/srv/minecraft/world''"
    by code_simp
  have same: "(sftp remote_config)\<lparr>remote_world_path := ''/elsewhere/world''\<rparr> = sftp remote_config"
    by (simp add: remote_config_def)
  have e: "ends_with ''.json'' ''steve.json''" "\<not> ends_with ''.json'' ''README''"
    by code_simp+
  have r: "rstrip_slash ''/srv/minecraft/'' = ''/srv/minecraft''"
    "rstrip_slash ''/srv/minecraft/world'' = ''/srv/minecraft/world''"
    by code_simp+
  have f: "fst (maybe_fetch_world_via_sftp
       ((sftp remote_config)\<lparr>world_name := [], remote_world_path := ''/srv/minecraft/world''\<rparr>)
       None serving_host empty_disk) = Inr (Some ''/tmp/mcstats_sftp_a1'')"
    by (simp add: maybe_fetch_world_via_sftp_def fetch_body_def remote_config_def
          serving_host_def caught_by_def isinstance_def e r Let_def)
  from composed_remote_path_takes_precedence[OF h(1-3), of "''/elsewhere/world''" None
         serving_host empty_disk]
  show ?thesis using h p same f by simp
qed

section \<open>The player upsert\<close>

text \<open>
  Claim C5. When the server accepts the statement, \<^verbatim>\<open>upsert_player\<close> inserts an absent
  player with the supplied (possibly null) name; for a player already present it
  replaces the stored name only when the supplied name is not null, sets last-seen to
  the current time, and keeps first-seen.
\<close>

theorem upsert_player_keeps_name_and_first_seen:
  "\<not> rejects srv (pending conn) (UpsertPlayer uuid n) \<Longrightarrow> sql_param name = Inr n \<Longrightarrow>
     (\<exists>c'. upsert_player srv conn uuid name = (None, c') \<and>
        (case players (pending conn) uuid of
           None \<Rightarrow>
             players (pending c') uuid =
               Some \<lparr>p_name = n, first_seen = current_timestamp srv,
                     last_seen = current_timestamp srv\<rparr>
         | Some r \<Rightarrow>
             (\<exists>r'. players (pending c') uuid = Some r' \<and>
                (n = None \<longrightarrow> p_name r' = p_name r) \<and>
                (n \<noteq> None \<longrightarrow> p_name r' = n) \<and>
                last_seen r' = current_timestamp srv \<and>
                first_seen r' = first_seen r)))"
  by (auto simp: upsert_player_def execute_def split: option.splits)

text \<open>
  Name preservation: a player recorded as Steve, synced again without a usercache entry,
  keeps the name and the first-seen time, and last-seen advances.
\<close>

theorem upsert_player_name_preservation:
  "\<not> rejects (accepting_server 9) steve_database (UpsertPlayer ''steve'' None) \<and>
   sql_param None = Inr None \<and>
   (\<exists>c'. upsert_player (accepting_server 9)
            \<lparr>committed = steve_database, pending = steve_database\<rparr> ''steve'' None = (None, c') \<and>
        players (pending c') ''steve'' =
          Some \<lparr>p_name = Some (JStr ''Steve''), first_seen = 1, last_seen = 9\<rparr>)"
proof -
  have h: "\<not> rejects (accepting_server 9)
             (pending \<lparr>committed = steve_database, pending = steve_database\<rparr>)
             (UpsertPlayer ''steve'' None)"
    by (simp add: accepting_server_def)
  have p: "players steve_database ''steve'' =
             Some \<lparr>p_name = Some (JStr ''Steve''), first_seen = 1, last_seen = 1\<rparr>"
    by (simp add: steve_database_def)
  from upsert_player_keeps_name_and_first_seen[OF h, of None] p
  obtain c' r' where
    "upsert_player (accepting_server 9) \<lparr>committed = steve_database, pending = steve_database\<rparr>
       ''steve'' None = (None, c')"
    "players (pending c') ''steve'' = Some r'" "p_name r' = Some (JStr ''Steve'')"
    "last_seen r' = 9" "first_seen r' = 1"
    by (auto simp: accepting_server_def)
  then show ?thesis using h by (cases r') (auto simp: accepting_server_def)
qed

section \<open>The effect of a batch on the tables\<close>

subsection \<open>The parsed sections are dicts\<close>

lemma dict_set_keys: "set (map fst (dict_set d k v)) = insert k (set (map fst d))"
  by (induction d) force+

lemma dict_set_distinct: "distinct (map fst d) \<Longrightarrow> distinct (map fst (dict_set d k v))"
  by (induction d) (auto simp: dict_set_keys simp del: set_map)

lemma dict_set_values: "set (dict_set d k v) \<subseteq> insert (k, v) (set d)"
proof (induction d)
  case Nil
  then show ?case by simp
next
  case (Cons a d)
  obtain k' v' where a: "a = (k', v')" by (cases a)
  show ?case using Cons by (cases "k' = k") (auto simp: a)
qed

lemma clean_items_distinct:
  "clean_items items cleaned = Inr st \<Longrightarrow> distinct (map fst cleaned) \<Longrightarrow> distinct (map fst st)"
proof (induction items arbitrary: cleaned)
  case Nil
  then show ?case by simp
next
  case (Cons a items)
  obtain k v where a: "a = (k, v)" by (cases a)
  show ?case
  proof (cases "py_int v")
    case (Inl e)
    then have "clean_items items cleaned = Inr st"
      using Cons.prems(1) by (simp add: a split: if_splits)
    then show ?thesis using Cons.IH Cons.prems(2) by blast
  next
    case (Inr i)
    then have "clean_items items (dict_set cleaned k i) = Inr st"
      using Cons.prems(1) by (simp add: a)
    then show ?thesis using Cons.IH dict_set_distinct[OF Cons.prems(2)] by blast
  qed
qed

lemma parse_sections_ok:
  "parse_sections ss cs secs = Inr out \<Longrightarrow> distinct (map fst secs)
     \<Longrightarrow> set (map fst secs) \<subseteq> K \<Longrightarrow> set cs \<subseteq> K
     \<Longrightarrow> \<forall>x \<in> set secs. distinct (map fst (snd x))
     \<Longrightarrow> distinct (map fst out) \<and> set (map fst out) \<subseteq> K \<and>
         (\<forall>x \<in> set out. distinct (map fst (snd x)))"
proof (induction cs arbitrary: secs)
  case Nil
  then show ?case by simp
next
  case (Cons c cs)
  have step: "distinct (map fst out) \<and> set (map fst out) \<subseteq> K \<and>
         (\<forall>x \<in> set out. distinct (map fst (snd x)))"
    if "parse_sections ss cs secs' = Inr out" "distinct (map fst secs')"
       "set (map fst secs') \<subseteq> K" "\<forall>x \<in> set secs'. distinct (map fst (snd x))" for secs'
    using that Cons.prems(4) by (intro Cons.IH[of secs']) auto
  from Cons.prems(1) obtain raw_vals where rv: "py_get ss c (JObj []) = Inr raw_vals"
    by (auto split: sum.splits)
  show ?case
  proof (cases "\<exists>items. raw_vals = JObj items")
    case False
    then have "parse_sections ss cs secs = Inr out"
      using Cons.prems(1) rv by (cases raw_vals) simp_all
    then show ?thesis using step[of secs] Cons.prems by blast
  next
    case True
    then obtain items where items: "raw_vals = JObj items" by blast
    from Cons.prems(1) rv items obtain cleaned where
      cl: "clean_items items [] = Inr cleaned"
      and rest: "parse_sections ss cs (if cleaned \<noteq> [] then dict_set secs c cleaned else secs) = Inr out"
      by (auto split: sum.splits)
    have dc: "distinct (map fst cleaned)" using clean_items_distinct[OF cl] by simp
    let ?secs' = "if cleaned \<noteq> [] then dict_set secs c cleaned else secs"
    have 1: "distinct (map fst ?secs')" using Cons.prems(2) dict_set_distinct by auto
    have 2: "set (map fst ?secs') \<subseteq> K"
      using Cons.prems(3,4) dict_set_keys[of secs c cleaned] by auto
    have 3: "\<forall>x \<in> set ?secs'. distinct (map fst (snd x))"
      using Cons.prems(5) dc dict_set_values[of secs c cleaned] by auto
    from step[OF rest 1 2 3] show ?thesis .
  qed
qed

lemma parse_stats_sections_ok:
  "parse_stats f = Inr (Some (secs, raw)) \<Longrightarrow> sections_ok secs"
proof -
  assume p: "parse_stats f = Inr (Some (secs, raw))"
  then obtain data ss where "f = Decoded data"
    and "parse_sections ss SECTION_KEYS [] = Inr secs"
    by (cases f) (auto simp: parse_stats_def split: sum.splits if_splits)
  from parse_sections_ok[OF this(2), of "set SECTION_KEYS"] show ?thesis
    by (simp add: sections_ok_def)
qed

subsection \<open>Statements about one player leave the others alone\<close>

lemma insert_rows_other:
  "u' \<noteq> u \<Longrightarrow>
     rows (foldl (insert_row now) T (map (Pair u) stats)) (u', k)
       = rows T (u', k)"
proof (induction stats arbitrary: T)
  case Nil
  then show ?case by simp
next
  case (Cons a stats)
  obtain key val where a: "a = (key, val)" by (cases a)
  have "rows (insert_row now T (u, key, val)) (u', k) = rows T (u', k)"
    using Cons.prems by (simp split: option.splits)
  then show ?case using Cons by (simp add: a)
qed

lemma insert_rows_view:
  "distinct (map fst stats) \<Longrightarrow>
     map_option stat_value
       (rows (foldl (insert_row now) T (map (Pair u) stats)) (u, k))
       = (case map_of stats k of
            Some v \<Rightarrow> Some v
          | None \<Rightarrow> map_option stat_value (rows T (u, k)))"
proof (induction stats arbitrary: T)
  case Nil
  then show ?case by simp
next
  case (Cons a stats)
  obtain key val where a: "a = (key, val)" by (cases a)
  have fresh: "map_of stats key = None" using Cons.prems by (simp add: a map_of_eq_None_iff)
  have one: "map_option stat_value (rows (insert_row now T (u, key, val)) (u, k))
               = (if k = key then Some val else map_option stat_value (rows T (u, k)))"
    by (simp split: option.splits)
  have "distinct (map fst stats)" using Cons.prems by simp
  from Cons.IH[OF this, of "insert_row now T (u, key, val)"] one fresh
  show ?case by (auto simp: a split: option.splits)
qed

lemma apply_stmt_other_player:
  "u' \<noteq> u \<Longrightarrow> stored_for (apply_stmt now (UpsertPlayer u n) db) u' = stored_for db u'"
  "u' \<noteq> u \<Longrightarrow> stored_for (apply_stmt now (UpsertRaw t u doc) db) u' = stored_for db u'"
  "u' \<noteq> u \<Longrightarrow> stored_for (apply_stmt now (DeleteSection t u) db) u' = stored_for db u'"
  "u' \<noteq> u \<Longrightarrow>
     stored_for (apply_stmt now (InsertSection t (map (Pair u) stats)) db) u'
       = stored_for db u'"
  by (auto simp: stored_for_def fun_eq_iff insert_rows_other split: option.splits)

lemma upsert_player_other:
  "upsert_player srv c u n = (r, c') \<Longrightarrow> u' \<noteq> u
     \<Longrightarrow> stored_for (pending c') u' = stored_for (pending c) u'"
  by (auto simp: upsert_player_def execute_def apply_stmt_other_player
           simp del: apply_stmt.simps split: sum.splits if_splits)

lemma upsert_raw_other:
  "upsert_raw srv c t u raw = (r, c') \<Longrightarrow> u' \<noteq> u
     \<Longrightarrow> stored_for (pending c') u' = stored_for (pending c) u'"
  by (auto simp: upsert_raw_def execute_def apply_stmt_other_player
           simp del: apply_stmt.simps split: if_splits)

lemma upsert_section_other:
  "upsert_section srv c t u stats = (r, c') \<Longrightarrow> u' \<noteq> u
     \<Longrightarrow> stored_for (pending c') u' = stored_for (pending c) u'"
  by (auto simp: upsert_section_def execute_def apply_stmt_other_player
           simp del: apply_stmt.simps split: if_splits)

lemma upsert_sections_other:
  "upsert_sections srv tmap u secs c = (r, c') \<Longrightarrow> u' \<noteq> u
     \<Longrightarrow> stored_for (pending c') u' = stored_for (pending c) u'"
proof (induction secs arbitrary: c)
  case Nil
  then show ?case by simp
next
  case (Cons a secs)
  obtain key stats where a: "a = (key, stats)" by (cases a)
  show ?case
  proof (cases "map_of tmap key")
    case None
    then show ?thesis using Cons by (simp add: a)
  next
    case (Some t)
    show ?thesis
    proof (cases "t = []")
      case True
      then show ?thesis using Cons Some by (simp add: a)
    next
      case False
      obtain r1 c1 where u1: "upsert_section srv c t u stats = (r1, c1)"
        by (cases "upsert_section srv c t u stats")
      have k1: "stored_for (pending c1) u' = stored_for (pending c) u'"
        by (rule upsert_section_other[OF u1 Cons.prems(2)])
      show ?thesis
      proof (cases r1)
        case None
        then have "upsert_sections srv tmap u secs c1 = (r, c')"
          using Cons.prems(1) Some False u1 by (simp add: a)
        from Cons.IH[OF this Cons.prems(2)] k1 show ?thesis by simp
      next
        case (Some e)
        then have "c' = c1" using Cons.prems(1) \<open>map_of tmap key = Some t\<close> False u1
          by (simp add: a)
        then show ?thesis using k1 by simp
      qed
    qed
  qed
qed

lemma store_player_other:
  assumes "store_player srv m names u secs raw c = (r, c')" and "u' \<noteq> u"
  shows "stored_for (pending c') u' = stored_for (pending c) u'"
proof -
  obtain r1 c1 where u1: "upsert_player srv c u (name_get names u) = (r1, c1)"
    by (cases "upsert_player srv c u (name_get names u)")
  obtain r2 c2 where u2: "upsert_raw srv c1 (raw_table m) u raw = (r2, c2)"
    by (cases "upsert_raw srv c1 (raw_table m) u raw")
  obtain r3 c3 where u3: "upsert_sections srv (section_table_map m) u secs c2 = (r3, c3)"
    by (cases "upsert_sections srv (section_table_map m) u secs c2")
  note k1 = upsert_player_other[OF u1 assms(2)]
  note k2 = upsert_raw_other[OF u2 assms(2)]
  note k3 = upsert_sections_other[OF u3 assms(2)]
  have "c' = c1 \<or> c' = c2 \<or> c' = c3"
    using assms(1) u1 u2 u3 by (auto simp: store_player_def split: option.splits)
  then show ?thesis using k1 k2 k3 by auto
qed

lemma process_files_other:
  "process_files srv m names files c n = (r, c') \<Longrightarrow> u \<notin> set (map (\<lambda>entry. stem (fst entry)) files)
     \<Longrightarrow> stored_for (pending c') u = stored_for (pending c) u"
proof (induction files arbitrary: c n)
  case Nil
  then show ?case by simp
next
  case (Cons a files)
  obtain g f where a: "a = (g, f)" by (cases a)
  have ne: "u \<noteq> stem g" and rest: "u \<notin> set (map (\<lambda>entry. stem (fst entry)) files)"
    using Cons.prems(2) by (auto simp: a)
  show ?case
  proof (cases "parse_stats f")
    case (Inl e)
    then show ?thesis using Cons.prems(1) by (simp add: a)
  next
    case (Inr p)
    show ?thesis
    proof (cases p)
      case None
      then have "process_files srv m names files c n = (r, c')"
        using Cons.prems(1) Inr by (simp add: a)
      from Cons.IH[OF this rest] show ?thesis .
    next
      case (Some sr)
      obtain secs raw where sr: "sr = (secs, raw)" by (cases sr)
      obtain r1 c1 where s1: "store_player srv m names (stem g) secs raw c = (r1, c1)"
        by (cases "store_player srv m names (stem g) secs raw c")
      note k1 = store_player_other[OF s1 ne]
      show ?thesis
      proof (cases r1)
        case None
        then have "process_files srv m names files c1 (n + 1) = (r, c')"
          using Cons.prems(1) Inr Some sr s1 by (simp add: a)
        from Cons.IH[OF this rest] k1 show ?thesis by simp
      next
        case (Some e)
        then have "c' = c1" using Cons.prems(1) Inr \<open>p = Some sr\<close> sr s1 by (simp add: a)
        then show ?thesis using k1 by simp
      qed
    qed
  qed
qed

lemma upsert_player_sections:
  "upsert_player srv c u n = (r, c') \<Longrightarrow> section_tables (pending c') = section_tables (pending c)"
  by (auto simp: upsert_player_def execute_def split: sum.splits if_splits option.splits)

lemma upsert_raw_sections:
  "upsert_raw srv c t u raw = (r, c') \<Longrightarrow> section_tables (pending c') = section_tables (pending c)"
  by (auto simp: upsert_raw_def execute_def split: if_splits)

lemma upsert_section_view:
  assumes "upsert_section srv c t u stats = (None, c')" and "distinct (map fst stats)"
  shows "section_view (pending c') t u = map_of stats"
    and "t' \<noteq> t \<Longrightarrow> section_tables (pending c') t' = section_tables (pending c) t'"
proof -
  let ?db1 = "apply_stmt (current_timestamp srv) (DeleteSection t u) (pending c)"
  have empty: "rows (section_tables ?db1 t) (u, k) = None" for k by simp
  show "section_view (pending c') t u = map_of stats"
  proof (cases "stats = []")
    case True
    then have "pending c' = ?db1"
      using assms(1) by (auto simp: upsert_section_def execute_def split: if_splits)
    then show ?thesis using True by (simp add: section_view_def fun_eq_iff)
  next
    case False
    then have "pending c' = apply_stmt (current_timestamp srv)
                 (InsertSection t (map (Pair u) stats)) ?db1"
      using assms(1) by (auto simp: upsert_section_def execute_def split: if_splits)
    then have "section_view (pending c') t u k = map_of stats k" for k
      using insert_rows_view[OF assms(2), of "current_timestamp srv" "section_tables ?db1 t" u k]
      by (simp add: section_view_def split: option.splits)
    then show ?thesis by (simp add: fun_eq_iff)
  qed
  show "section_tables (pending c') t' = section_tables (pending c) t'" if "t' \<noteq> t"
    using assms(1) that
    by (auto simp: upsert_section_def execute_def split: if_splits)
qed

lemma map_of_inj_on_distinct_values:
  "distinct (map snd tmap) \<Longrightarrow> map_of tmap a = Some t \<Longrightarrow> map_of tmap b = Some t \<Longrightarrow> a = b"
proof (induction tmap)
  case Nil
  then show ?case by simp
next
  case (Cons x tmap)
  obtain k v where x: "x = (k, v)" by (cases x)
  have notin: "map_of tmap y = Some v \<Longrightarrow> False" for y
    using Cons.prems(1) map_of_SomeD[of tmap y v] by (force simp: x)
  show ?case using Cons notin by (auto simp: x split: if_splits)
qed

lemma upsert_sections_view:
  assumes "distinct (map snd tmap)" "[] \<notin> set (map snd tmap)"
  shows "upsert_sections srv tmap u secs c = (None, c') \<Longrightarrow> distinct (map fst secs)
     \<Longrightarrow> set (map fst secs) \<subseteq> set (map fst tmap)
     \<Longrightarrow> \<forall>x \<in> set secs. distinct (map fst (snd x))
     \<Longrightarrow> map_of tmap C = Some t
     \<Longrightarrow> (case map_of secs C of
            Some stats \<Rightarrow> section_view (pending c') t u = map_of stats
          | None \<Rightarrow> \<forall>k. rows (section_tables (pending c') t) (u, k)
                        = rows (section_tables (pending c) t) (u, k))"
proof (induction secs arbitrary: c)
  case Nil
  then show ?case by simp
next
  case (Cons a secs)
  obtain C1 stats1 where a: "a = (C1, stats1)" by (cases a)
  have "C1 \<in> set (map fst tmap)" using Cons.prems(3) by (simp add: a)
  then obtain t1 where t1: "map_of tmap C1 = Some t1"
    by (metis map_of_eq_None_iff not_Some_eq set_map)
  have t1ne: "t1 \<noteq> []" using assms(2) map_of_SomeD[OF t1] by force
  obtain r1 c1 where u1: "upsert_section srv c t1 u stats1 = (r1, c1)"
    by (cases "upsert_section srv c t1 u stats1")
  have r1: "r1 = None" using Cons.prems(1) t1 t1ne u1 by (cases r1) (simp_all add: a)
  have rest: "upsert_sections srv tmap u secs c1 = (None, c')"
    using Cons.prems(1) t1 t1ne u1 r1 by (simp add: a)
  have d1: "distinct (map fst stats1)" using Cons.prems(4) by (simp add: a)
  note v1 = upsert_section_view[OF u1[unfolded r1] d1]
  have ih: "case map_of secs C of
            Some stats \<Rightarrow> section_view (pending c') t u = map_of stats
          | None \<Rightarrow> \<forall>k. rows (section_tables (pending c') t) (u, k)
                        = rows (section_tables (pending c1) t) (u, k)"
    using Cons.prems by (intro Cons.IH[OF rest]) (auto simp: a)
  show ?case
  proof (cases "C = C1")
    case True
    then have tt: "t = t1" using t1 Cons.prems(5) by simp
    have "map_of secs C = None" using Cons.prems(2) True by (simp add: a map_of_eq_None_iff)
    then have "section_view (pending c') t u = section_view (pending c1) t u"
      using ih by (simp add: section_view_def fun_eq_iff)
    then show ?thesis using True tt v1(1) by (simp add: a)
  next
    case False
    then have "t \<noteq> t1" using map_of_inj_on_distinct_values[OF assms(1) Cons.prems(5), of C1] t1
      by auto
    from v1(2)[OF this] ih False show ?thesis
      by (auto simp: a split: option.splits)
  qed
qed

lemma section_table_map_keys: "map fst (section_table_map m) = SECTION_KEYS"
  by (simp add: section_table_map_def SECTION_KEYS_def)

lemma store_player_sections:
  assumes "store_player srv m names u secs raw c = (None, c')"
    and "sections_ok secs" and "distinct_tables m"
    and "map_of (section_table_map m) C = Some t"
  shows "case map_of secs C of
            Some stats \<Rightarrow> section_view (pending c') t u = map_of stats
          | None \<Rightarrow> \<forall>k. rows (section_tables (pending c') t) (u, k)
                        = rows (section_tables (pending c) t) (u, k)"
proof -
  from assms(1) obtain c1 c2 where
    u1: "upsert_player srv c u (name_get names u) = (None, c1)" and
    u2: "upsert_raw srv c1 (raw_table m) u raw = (None, c2)" and
    u3: "upsert_sections srv (section_table_map m) u secs c2 = (None, c')"
    by (auto simp: store_player_def split: prod.splits option.splits)
  have same: "section_tables (pending c2) = section_tables (pending c)"
    using upsert_player_sections[OF u1] upsert_raw_sections[OF u2] by simp
  have "case map_of secs C of
            Some stats \<Rightarrow> section_view (pending c') t u = map_of stats
          | None \<Rightarrow> \<forall>k. rows (section_tables (pending c') t) (u, k)
                        = rows (section_tables (pending c2) t) (u, k)"
    using assms(2,3)
    by (intro upsert_sections_view[OF _ _ u3 _ _ _ assms(4)])
       (auto simp: sections_ok_def distinct_tables_def section_table_map_keys
             simp del: set_map)
  then show ?thesis unfolding same .
qed

lemma stored_for_eqD:
  assumes "stored_for db u = stored_for db' u"
  shows "players db u = players db' u"
    and "raw_tables db t u = raw_tables db' t u"
    and "rows (section_tables db t) (u, k) = rows (section_tables db' t) (u, k)"
    and "section_view db t u = section_view db' t u"
proof -
  from assms have a: "players db u = players db' u"
    and b: "(\<lambda>t. raw_tables db t u) = (\<lambda>t. raw_tables db' t u)"
    and c: "(\<lambda>t k. rows (section_tables db t) (u, k)) = (\<lambda>t k. rows (section_tables db' t) (u, k))"
    by (simp_all add: stored_for_def)
  show "players db u = players db' u" by (rule a)
  show "raw_tables db t u = raw_tables db' t u" using b by (meson fun_cong)
  show r: "rows (section_tables db t) (u, k) = rows (section_tables db' t) (u, k)" for k
    using c by (meson fun_cong)
  show "section_view db t u = section_view db' t u"
    by (simp add: section_view_def fun_eq_iff r)
qed

lemma process_files_last_writer:
  "process_files srv m names files c n = (Inr n', c') \<Longrightarrow> distinct_players files
     \<Longrightarrow> (fname, f) \<in> set files \<Longrightarrow> parse_stats f = Inr (Some (secs, raw))
     \<Longrightarrow> \<exists>c0 c1. store_player srv m names (stem fname) secs raw c0 = (None, c1) \<and>
           stored_for (pending c0) (stem fname) = stored_for (pending c) (stem fname) \<and>
           stored_for (pending c') (stem fname) = stored_for (pending c1) (stem fname)"
proof (induction files arbitrary: c n)
  case Nil
  then show ?case by simp
next
  case (Cons a files)
  obtain g fg where a: "a = (g, fg)" by (cases a)
  have dp: "distinct_players files"
    and fresh: "stem g \<notin> set (map (\<lambda>entry. stem (fst entry)) files)"
    using Cons.prems(2) by (simp_all add: distinct_players_def a)
  show ?case
  proof (cases "a = (fname, f)")
    case True
    then have gf: "g = fname" "fg = f" using a by simp_all
    obtain r1 c1 where s1: "store_player srv m names (stem fname) secs raw c = (r1, c1)"
      by (cases "store_player srv m names (stem fname) secs raw c")
    have r1: "r1 = None" using Cons.prems(1,4) s1 gf by (cases r1) (simp_all add: a)
    have rest: "process_files srv m names files c1 (n + 1) = (Inr n', c')"
      using Cons.prems(1,4) s1 r1 gf by (simp add: a)
    have "stored_for (pending c') (stem fname) = stored_for (pending c1) (stem fname)"
      using process_files_other[OF rest] fresh gf by simp
    then show ?thesis using s1 r1 by blast
  next
    case False
    then have mem: "(fname, f) \<in> set files" using Cons.prems(3) by simp
    then have ne: "stem fname \<noteq> stem g" using fresh by force
    show ?thesis
    proof (cases "parse_stats fg")
      case (Inl e)
      then show ?thesis using Cons.prems(1) by (simp add: a)
    next
      case (Inr p)
      show ?thesis
      proof (cases p)
        case None
        then have "process_files srv m names files c n = (Inr n', c')"
          using Cons.prems(1) Inr by (simp add: a)
        from Cons.IH[OF this dp mem Cons.prems(4)] show ?thesis .
      next
        case (Some sr)
        obtain secs' raw' where sr: "sr = (secs', raw')" by (cases sr)
        obtain r1 c1 where s1: "store_player srv m names (stem g) secs' raw' c = (r1, c1)"
          by (cases "store_player srv m names (stem g) secs' raw' c")
        have r1: "r1 = None" using Cons.prems(1) Inr Some sr s1 by (cases r1) (simp_all add: a)
        have rest: "process_files srv m names files c1 (n + 1) = (Inr n', c')"
          using Cons.prems(1) Inr Some sr s1 r1 by (simp add: a)
        note k = store_player_other[OF s1 ne]
        from Cons.IH[OF rest dp mem Cons.prems(4)] k show ?thesis by auto
      qed
    qed
  qed
qed

lemma process_files_sections:
  assumes "process_files srv m names files c n = (Inr n', c')"
    and "distinct_players files" and "distinct_tables m"
    and "(fname, f) \<in> set files" and "parse_stats f = Inr (Some (secs, raw))"
    and "map_of (section_table_map m) C = Some t"
  shows "case map_of secs C of
            Some stats \<Rightarrow> section_view (pending c') t (stem fname) = map_of stats
          | None \<Rightarrow> \<forall>k. rows (section_tables (pending c') t) (stem fname, k)
                        = rows (section_tables (pending c) t) (stem fname, k)"
proof -
  from process_files_last_writer[OF assms(1,2,4,5)] obtain c0 c1 where
    s: "store_player srv m names (stem fname) secs raw c0 = (None, c1)" and
    e0: "stored_for (pending c0) (stem fname) = stored_for (pending c) (stem fname)" and
    e1: "stored_for (pending c') (stem fname) = stored_for (pending c1) (stem fname)"
    by blast
  note one = store_player_sections[OF s parse_stats_sections_ok[OF assms(5)] assms(3,6)]
  show ?thesis
  proof (cases "map_of secs C")
    case None
    then show ?thesis using one stored_for_eqD(3)[OF e0] stored_for_eqD(3)[OF e1] by simp
  next
    case (Some stats)
    then show ?thesis using one stored_for_eqD(4)[OF e1] by simp
  qed
qed

lemma sync_success:
  assumes "fst (sync cfg env w) = Inr n"
    and "maybe_fetch_world_via_sftp (sftp cfg) (temp_dir cfg) (transfer env) (on_disk w)
          = (Inr fw, d)"
    and "resolve_source fw d = (Some entries, uc, cl)"
  shows "\<exists>names c'. load_usercache uc = Inr names \<and>
           process_files (server env) (mysql cfg) names (glob_json entries)
             \<lparr>committed = stored w, pending = stored w\<rparr> 0 = (Inr n, c') \<and>
           stored (snd (sync cfg env w)) = pending c' \<and>
           on_disk (snd (sync cfg env w)) = (case cl of None \<Rightarrow> d | Some tmp \<Rightarrow> rmtree tmp d)"
proof (cases rule: sync_cases[of cfg env w])
  case (aborted e d')
  then show ?thesis using assms(1) by simp
next
  case (ran fw' d' entries' uc' cl' names)
  with assms(2,3) have same: "fw' = fw" "d' = d" "entries' = entries" "uc' = uc" "cl' = cl"
    by simp_all
  let ?c = "\<lparr>committed = stored w, pending = stored w\<rparr>"
  show ?thesis
  proof (cases rule: sync_body_cases[of "server env" "mysql cfg" names entries "stored w"])
    case (schema_failed e c')
    then show ?thesis using ran(5) assms(1) same by simp
  next
    case batch
    obtain r c1 where pf: "process_files (server env) (mysql cfg) names (glob_json entries) ?c 0 = (r, c1)"
      by (cases "process_files (server env) (mysql cfg) names (glob_json entries) ?c 0")
    show ?thesis
    proof (cases r)
      case (Inl e)
      then show ?thesis using ran(5) batch pf assms(1) same by simp
    next
      case (Inr n')
      then show ?thesis using ran(3,5) batch pf assms(1) unfolding same
        by (simp add: commit_def)
    qed
  qed
qed

section \<open>Full replacement per category present\<close>

text \<open>
  Claim C1. In a run that ends normally, with one file per player and a table of its own
  for each category: for a file of the batch that parses, with player \<open>p\<close> (the stem of
  its name), and a category \<open>C\<close> with table \<open>t\<close>: if \<open>C\<close> is in the parse result, then after
  the run \<open>t\<close> holds for \<open>p\<close> exactly the key/value pairs parsed for \<open>C\<close> (every earlier row
  of \<open>p\<close> in \<open>t\<close> is gone unless its key is among them); if \<open>C\<close> is absent from the parse
  result, every row of \<open>p\<close> in \<open>t\<close> is as it was before the run.
\<close>

theorem sync_replaces_present_categories:
  assumes "maybe_fetch_world_via_sftp (sftp cfg) (temp_dir cfg) (transfer env) (on_disk w)
          = (Inr fw, d)"
    and "resolve_source fw d = (Some entries, uc, cl)"
    and "fst (sync cfg env w) = Inr n"
    and "distinct_tables (mysql cfg)" and "distinct_players (glob_json entries)"
    and "(fname, f) \<in> set (glob_json entries)" and "parse_stats f = Inr (Some (secs, raw))"
    and "map_of (section_table_map (mysql cfg)) C = Some t"
  shows "case map_of secs C of
            Some stats \<Rightarrow>
              section_view (stored (snd (sync cfg env w))) t (stem fname) = map_of stats
          | None \<Rightarrow>
              \<forall>k. rows (section_tables (stored (snd (sync cfg env w))) t) (stem fname, k)
                    = rows (section_tables (stored w) t) (stem fname, k)"
proof -
  from sync_success[OF assms(3,1,2)] obtain names c' where
    pf: "process_files (server env) (mysql cfg) names (glob_json entries)
             \<lparr>committed = stored w, pending = stored w\<rparr> 0 = (Inr n, c')" and
    st: "stored (snd (sync cfg env w)) = pending c'" by blast
  note r = process_files_sections[OF pf assms(5,4,6,7,8)]
  show ?thesis using r unfolding st by (cases "map_of secs C") simp_all
qed

lemma scenario_C_source:
  "maybe_fetch_world_via_sftp (sftp local_config) (temp_dir local_config) rem
      (on_disk scenario_C_world) = (Inr None, on_disk scenario_C_world)"
  "resolve_source None (on_disk scenario_C_world) =
     (Some [(''steve.json'', Decoded scenario_C_doc)], None, None)"
  by (simp_all add: maybe_fetch_world_via_sftp_def local_config_def resolve_source_def
        scenario_C_world_def)

lemma scenario_C_parsed:
  "parse_stats (Decoded scenario_C_doc) = Inr (Some ([(''minecraft:mined'', [(''A'', 3)])], scenario_C_doc))"
  by code_simp

lemma scenario_C_glob:
  "glob_json [(''steve.json'', Decoded scenario_C_doc)] = [(''steve.json'', Decoded scenario_C_doc)]"
  by code_simp

lemma steve_stem: "stem ''steve.json'' = ''steve''"
  by code_simp

lemma scenario_C_accepted:
  "fst (sync local_config \<lparr>transfer = rem, server = accepting_server t\<rparr> scenario_C_world) = Inr 1"
  by (simp add: run_defs scenario_C_source scenario_C_glob scenario_C_parsed accepting_server_def
        local_config_mysql load_usercache_def)

text \<open>
  Scenario C is an instance: the mined table held \<^verbatim>\<open>(A, 1)\<close> and \<^verbatim>\<open>(B, 2)\<close> for the player;
  after the run it holds exactly \<^verbatim>\<open>(A, 3)\<close>, and the player's row in the table of the
  used category, which the file does not mention, is untouched.
\<close>

theorem scenario_C_replaces_mined_rows:
  "fst (sync local_config \<lparr>transfer = unreachable_host, server = accepting_server 5\<rparr>
          scenario_C_world) = Inr 1 \<and>
   distinct_tables (mysql local_config) \<and>
   section_view (stored scenario_C_world) ''player_stats_mined'' ''steve''
     = map_of [(''A'', 1), (''B'', 2)] \<and>
   section_view
     (stored (snd (sync local_config \<lparr>transfer = unreachable_host, server = accepting_server 5\<rparr>
                     scenario_C_world)))
     ''player_stats_mined'' ''steve'' = map_of [(''A'', 3)] \<and>
   (\<forall>k. rows (section_tables
              (stored (snd (sync local_config
                              \<lparr>transfer = unreachable_host, server = accepting_server 5\<rparr>
                              scenario_C_world)))
              ''player_stats_used'') (''steve'', k)
        = rows (section_tables (stored scenario_C_world) ''player_stats_used'') (''steve'', k))"
proof -
  let ?env = "\<lparr>transfer = unreachable_host, server = accepting_server 5\<rparr>"
  have s1: "maybe_fetch_world_via_sftp (sftp local_config) (temp_dir local_config)
              (transfer ?env) (on_disk scenario_C_world) = (Inr None, on_disk scenario_C_world)"
    by (rule scenario_C_source(1))
  have ok: "fst (sync local_config ?env scenario_C_world) = Inr 1"
    by (rule scenario_C_accepted)
  have dt: "distinct_tables (mysql local_config)"
    unfolding local_config_mysql by code_simp
  have dp: "distinct_players (glob_json [(''steve.json'', Decoded scenario_C_doc)])"
    by (simp add: scenario_C_glob distinct_players_def)
  have mem: "(''steve.json'', Decoded scenario_C_doc)
               \<in> set (glob_json [(''steve.json'', Decoded scenario_C_doc)])"
    by (simp add: scenario_C_glob)
  have t1: "map_of (section_table_map (mysql local_config)) ''minecraft:mined''
              = Some ''player_stats_mined''"
    unfolding local_config_mysql by code_simp
  have t2: "map_of (section_table_map (mysql local_config)) ''minecraft:used''
              = Some ''player_stats_used''"
    unfolding local_config_mysql by code_simp
  note a = sync_replaces_present_categories[OF s1 scenario_C_source(2) ok dt dp mem
             scenario_C_parsed t1]
  note b = sync_replaces_present_categories[OF s1 scenario_C_source(2) ok dt dp mem
             scenario_C_parsed t2]
  have before: "section_view (stored scenario_C_world) ''player_stats_mined'' ''steve''
     = map_of [(''A'', 1), (''B'', 2)]"
    by (auto simp: section_view_def scenario_C_world_def scenario_C_database_def fun_eq_iff)
  from a b ok dt before show ?thesis by (simp add: steve_stem)
qed

section \<open>Fault isolation\<close>

lemma execute_accepts:
  "\<forall>db s. \<not> rejects srv db s \<Longrightarrow> \<exists>c'. execute srv s c = (None, c')"
  by (simp add: execute_def)

lemma upsert_section_accepts:
  "\<forall>db s. \<not> rejects srv db s \<Longrightarrow> \<exists>c'. upsert_section srv c t u stats = (None, c')"
  by (simp add: upsert_section_def execute_def)

lemma upsert_sections_accepts:
  "\<forall>db s. \<not> rejects srv db s \<Longrightarrow> \<exists>c'. upsert_sections srv tmap u secs c = (None, c')"
proof (induction secs arbitrary: c)
  case Nil
  then show ?case by simp
next
  case (Cons a secs)
  obtain key stats where a: "a = (key, stats)" by (cases a)
  show ?case
  proof (cases "map_of tmap key")
    case None
    then show ?thesis using Cons by (simp add: a)
  next
    case (Some t)
    from upsert_section_accepts[OF Cons.prems, of c t u stats] obtain c1 where
      "upsert_section srv c t u stats = (None, c1)" by blast
    then show ?thesis using Cons.IH[OF Cons.prems] Some by (simp add: a)
  qed
qed

lemma store_player_accepts:
  assumes "\<forall>db s. \<not> rejects srv db s" and "sql_param (name_get names u) = Inr nm"
  shows "\<exists>c'. store_player srv m names u secs raw c = (None, c')"
proof -
  obtain c1 where u1: "upsert_player srv c u (name_get names u) = (None, c1)"
    using assms by (simp add: upsert_player_def execute_def)
  obtain c2 where u2: "upsert_raw srv c1 (raw_table m) u raw = (None, c2)"
    using assms(1) by (simp add: upsert_raw_def execute_def)
  from upsert_sections_accepts[OF assms(1), of "section_table_map m" u secs c2]
  show ?thesis using u1 u2 by (simp add: store_player_def)
qed

lemma process_files_counts_valid:
  "\<forall>db s. \<not> rejects srv db s
     \<Longrightarrow> \<forall>entry \<in> set files. valid_file names entry \<or> undecodable_file entry
     \<Longrightarrow> \<exists>c'. process_files srv m names files c n =
              (Inr (n + length (filter (valid_file names) files)), c')"
proof (induction files arbitrary: c n)
  case Nil
  then show ?case by simp
next
  case (Cons a files)
  obtain g f where a: "a = (g, f)" by (cases a)
  have rest: "\<forall>entry \<in> set files. valid_file names entry \<or> undecodable_file entry"
    using Cons.prems(2) by simp
  show ?case
  proof (cases "valid_file names a")
    case True
    then obtain secs raw nm where p: "parse_stats f = Inr (Some (secs, raw))"
      and nm: "sql_param (name_get names (stem g)) = Inr nm"
      by (auto simp: valid_file_def a split: sum.splits option.splits)
    from store_player_accepts[OF Cons.prems(1) nm, of m secs raw c] obtain c1 where
      s: "store_player srv m names (stem g) secs raw c = (None, c1)" by blast
    from Cons.IH[OF Cons.prems(1) rest, of c1 "n + 1"] True p s show ?thesis
      by (simp add: a)
  next
    case False
    then have "undecodable_file a" using Cons.prems(2) by simp
    then have p: "parse_stats f = Inr None"
      by (auto simp: undecodable_file_def a parse_stats_def split: disk_file.splits)
    from Cons.IH[OF Cons.prems(1) rest, of c n] False p show ?thesis
      by (simp add: a)
  qed
qed

lemma process_files_untouched:
  "process_files srv m names files c n = (r, c')
     \<Longrightarrow> \<forall>entry \<in> set files. stem (fst entry) = u \<longrightarrow> parse_stats (snd entry) = Inr None
     \<Longrightarrow> stored_for (pending c') u = stored_for (pending c) u"
proof (induction files arbitrary: c n)
  case Nil
  then show ?case by simp
next
  case (Cons a files)
  obtain g f where a: "a = (g, f)" by (cases a)
  have rest: "\<forall>entry \<in> set files. stem (fst entry) = u \<longrightarrow> parse_stats (snd entry) = Inr None"
    using Cons.prems(2) by simp
  show ?case
  proof (cases "parse_stats f")
    case (Inl e)
    then show ?thesis using Cons.prems(1) by (simp add: a)
  next
    case (Inr p)
    show ?thesis
    proof (cases p)
      case None
      then have "process_files srv m names files c n = (r, c')"
        using Cons.prems(1) Inr by (simp add: a)
      from Cons.IH[OF this rest] show ?thesis .
    next
      case (Some sr)
      obtain secs raw where sr: "sr = (secs, raw)" by (cases sr)
      have ne: "u \<noteq> stem g" using Cons.prems(2) Inr Some by (auto simp: a)
      obtain r1 c1 where s1: "store_player srv m names (stem g) secs raw c = (r1, c1)"
        by (cases "store_player srv m names (stem g) secs raw c")
      note k1 = store_player_other[OF s1 ne]
      show ?thesis
      proof (cases r1)
        case None
        then have "process_files srv m names files c1 (n + 1) = (r, c')"
          using Cons.prems(1) Inr Some sr s1 by (simp add: a)
        from Cons.IH[OF this rest] k1 show ?thesis by simp
      next
        case (Some e)
        then have "c' = c1" using Cons.prems(1) Inr \<open>p = Some sr\<close> sr s1 by (simp add: a)
        then show ?thesis using k1 by simp
      qed
    qed
  qed
qed

lemma ensure_table_accepts:
  "\<forall>db s. \<not> rejects srv db s \<Longrightarrow>
     ensure_table srv t \<lparr>committed = db, pending = db\<rparr> = (None, \<lparr>committed = db, pending = db\<rparr>)"
  by (simp add: ensure_table_def execute_def commit_def)

lemma ensure_section_tables_accepts:
  "\<forall>db s. \<not> rejects srv db s \<Longrightarrow>
     ensure_section_tables srv ts \<lparr>committed = db, pending = db\<rparr>
       = (None, \<lparr>committed = db, pending = db\<rparr>)"
  by (induction ts) (simp_all add: ensure_section_table_def ensure_table_accepts)

lemma sync_body_accepts:
  "\<forall>db s. \<not> rejects srv db s \<Longrightarrow>
     sync_body srv m names entries \<lparr>committed = db, pending = db\<rparr> =
       (case process_files srv m names (glob_json entries) \<lparr>committed = db, pending = db\<rparr> 0 of
          (Inl e, c') \<Rightarrow> (Inl e, c')
        | (Inr processed, c') \<Rightarrow> (Inr processed, commit c'))"
  by (simp add: sync_body_def ensure_players_table_def ensure_raw_table_def
        ensure_table_accepts ensure_section_tables_accepts)

text \<open>
  Claim C7, as amended. A batch holds, among \<open>N\<close> valid files, one file that cannot be
  opened or is not JSON (\<^verbatim>\<open>OSError\<close> or \<^verbatim>\<open>JSONDecodeError\<close>); the server accepts every
  statement, and no valid file belongs to that file's player. Then the run does not
  abort: it ends normally with the processed count \<open>N\<close>, and everything stored for that
  file's player (player row, raw rows, section rows) is as before the run, so no row is
  created for that player.
\<close>

theorem undecodable_file_is_skipped:
  assumes "maybe_fetch_world_via_sftp (sftp cfg) (temp_dir cfg) (transfer env) (on_disk w)
          = (Inr fw, d)"
    and "resolve_source fw d = (Some entries, uc, cl)"
    and "load_usercache uc = Inr names"
    and "connect_error (server env) = None"
    and "\<forall>db s. \<not> rejects (server env) db s"
    and "glob_json entries = pre @ bad # post"
    and "undecodable_file bad"
    and "\<forall>entry \<in> set (pre @ post). valid_file names entry"
    and "stem (fst bad) \<notin> set (map (\<lambda>entry. stem (fst entry)) (pre @ post))"
  shows "fst (sync cfg env w) = Inr (length pre + length post) \<and>
         stored_for (stored (snd (sync cfg env w))) (stem (fst bad))
           = stored_for (stored w) (stem (fst bad))"
proof -
  let ?c = "\<lparr>committed = stored w, pending = stored w\<rparr>"
  let ?files = "pre @ bad # post"
  have bad_none: "parse_stats (snd bad) = Inr None"
    using assms(7) by (auto simp: undecodable_file_def parse_stats_def split: disk_file.splits)
  then have not_valid: "\<not> valid_file names bad" by (simp add: valid_file_def)
  have all: "\<forall>entry \<in> set ?files. valid_file names entry \<or> undecodable_file entry"
    using assms(7,8) by auto
  have count: "length (filter (valid_file names) ?files) = length pre + length post"
    using assms(8) not_valid by simp
  from process_files_counts_valid[OF assms(5) all, of "mysql cfg" ?c 0] count obtain c' where
    pf: "process_files (server env) (mysql cfg) names ?files ?c 0
           = (Inr (length pre + length post), c')" by auto
  have untouched: "\<forall>entry \<in> set ?files. stem (fst entry) = stem (fst bad)
                      \<longrightarrow> parse_stats (snd entry) = Inr None"
    using assms(9) bad_none by (force simp: image_iff)
  have keep: "stored_for (pending c') (stem (fst bad)) = stored_for (stored w) (stem (fst bad))"
    using process_files_untouched[OF pf untouched] by simp
  have "sync cfg env w =
          (Inr (length pre + length post),
           \<lparr>on_disk = (case cl of None \<Rightarrow> d | Some tmp \<Rightarrow> rmtree tmp d), stored = pending c'\<rparr>)"
    using assms(1-4,6) pf sync_body_accepts[OF assms(5), of "mysql cfg" names entries "stored w"]
    by (simp add: sync_def commit_def)
  then show ?thesis using keep by simp
qed

text \<open>
  An instance: one valid file, one file that does not decode, for a player unknown to
  the database.
\<close>

lemma faulty_world_source:
  "maybe_fetch_world_via_sftp (sftp local_config) (temp_dir local_config) rem
      (on_disk faulty_world) = (Inr None, on_disk faulty_world)"
  "resolve_source None (on_disk faulty_world) =
     (Some [(''steve.json'', Decoded scenario_C_doc),
            (''alex.json'', Raises JSONDecodeError),
            (''notes.txt'', Raises JSONDecodeError)], None, None)"
  by (simp_all add: maybe_fetch_world_via_sftp_def local_config_def resolve_source_def
        faulty_world_def)

theorem undecodable_file_is_skipped_example:
  "undecodable_file (''alex.json'', Raises JSONDecodeError) \<and>
   valid_file [] (''steve.json'', Decoded scenario_C_doc) \<and>
   fst (sync local_config \<lparr>transfer = unreachable_host, server = accepting_server 5\<rparr>
          faulty_world) = Inr 1 \<and>
   stored_for
     (stored (snd (sync local_config
                     \<lparr>transfer = unreachable_host, server = accepting_server 5\<rparr> faulty_world)))
     ''alex'' = stored_for (stored faulty_world) ''alex'' \<and>
   players (stored faulty_world) ''alex'' = None"
proof -
  let ?env = "\<lparr>transfer = unreachable_host, server = accepting_server 5\<rparr>"
  let ?bad = "(''alex.json'', Raises JSONDecodeError)"
  have s1: "maybe_fetch_world_via_sftp (sftp local_config) (temp_dir local_config)
              (transfer ?env) (on_disk faulty_world) = (Inr None, on_disk faulty_world)"
    by (rule faulty_world_source(1))
  have uc: "load_usercache None = Inr []" by (simp add: load_usercache_def)
  have co: "connect_error (server ?env) = None" by (simp add: accepting_server_def)
  have acc: "\<forall>db s. \<not> rejects (server ?env) db s" by (simp add: accepting_server_def)
  have gl: "glob_json [(''steve.json'', Decoded scenario_C_doc),
            (''alex.json'', Raises JSONDecodeError),
            (''notes.txt'', Raises JSONDecodeError)]
          = [(''steve.json'', Decoded scenario_C_doc)] @ ?bad # []"
    by code_simp
  have mal: "undecodable_file ?bad" by code_simp
  have val: "valid_file [] (''steve.json'', Decoded scenario_C_doc)"
    by (simp add: valid_file_def scenario_C_parsed)
  then have vals: "\<forall>entry \<in> set ([(''steve.json'', Decoded scenario_C_doc)] @ []).
                      valid_file [] entry" by simp
  have st: "stem ''alex.json'' = ''alex''" by code_simp
  have fresh: "stem (fst ?bad)
                 \<notin> set (map (\<lambda>entry. stem (fst entry))
                           ([(''steve.json'', Decoded scenario_C_doc)] @ []))"
    by (simp add: st steve_stem)
  note r = undecodable_file_is_skipped[OF s1 faulty_world_source(2) uc co acc gl mal vals fresh]
  have none: "players (stored faulty_world) ''alex'' = None"
    by (simp add: faulty_world_def scenario_C_database_def)
  from r mal val none show ?thesis by (simp add: st)
qed

lemma non_utf8_world_source:
  "maybe_fetch_world_via_sftp (sftp local_config) (temp_dir local_config) rem
      (on_disk non_utf8_world) = (Inr None, on_disk non_utf8_world)"
  "resolve_source None (on_disk non_utf8_world) =
     (Some [(''steve.json'', Decoded scenario_C_doc),
            (''alex.json'', Raises UnicodeDecodeError)], None, None)"
  by (simp_all add: maybe_fetch_world_via_sftp_def local_config_def resolve_source_def
        non_utf8_world_def)

lemma non_utf8_glob:
  "glob_json [(''steve.json'', Decoded scenario_C_doc), (''alex.json'', Raises UnicodeDecodeError)]
     = [(''steve.json'', Decoded scenario_C_doc), (''alex.json'', Raises UnicodeDecodeError)]"
  by code_simp

lemma non_utf8_not_skipped: "parse_stats (Raises UnicodeDecodeError) = Inl UnicodeDecodeError"
  by code_simp

text \<open>
  Claim C7 as stated speaks of every malformed file. A file whose bytes are not UTF-8 is
  malformed, reading it raises \<^verbatim>\<open>UnicodeDecodeError\<close>, which is neither a \<^verbatim>\<open>JSONDecodeError\<close>
  nor an \<^verbatim>\<open>OSError\<close>: beside one valid file it makes the run end with that exception.
\<close>

theorem non_utf8_file_aborts_run:
  "valid_file [] (''steve.json'', Decoded scenario_C_doc) \<and>
   fst (sync local_config \<lparr>transfer = unreachable_host, server = accepting_server 5\<rparr>
          non_utf8_world) = Inl UnicodeDecodeError"
proof -
  have val: "valid_file [] (''steve.json'', Decoded scenario_C_doc)"
    by (simp add: valid_file_def scenario_C_parsed)
  have "fst (sync local_config \<lparr>transfer = unreachable_host, server = accepting_server 5\<rparr>
          non_utf8_world) = Inl UnicodeDecodeError"
    by (simp add: run_defs non_utf8_world_source non_utf8_glob scenario_C_parsed
          non_utf8_not_skipped accepting_server_def local_config_mysql load_usercache_def)
  with val show ?thesis by simp
qed

section \<open>Running the pipeline twice\<close>

lemma upsert_raw_players:
  "upsert_raw srv c t u raw = (r, c') \<Longrightarrow> players (pending c') = players (pending c)"
  by (auto simp: upsert_raw_def execute_def split: if_splits)

lemma upsert_section_keeps:
  "upsert_section srv c t u stats = (r, c') \<Longrightarrow>
     players (pending c') = players (pending c) \<and> raw_tables (pending c') = raw_tables (pending c)"
  by (auto simp: upsert_section_def execute_def split: if_splits)

lemma upsert_sections_keeps:
  "upsert_sections srv tmap u secs c = (r, c') \<Longrightarrow>
     players (pending c') = players (pending c) \<and> raw_tables (pending c') = raw_tables (pending c)"
proof (induction secs arbitrary: c)
  case Nil
  then show ?case by simp
next
  case (Cons a secs)
  obtain key stats where a: "a = (key, stats)" by (cases a)
  show ?case
  proof (cases "map_of tmap key")
    case None
    then show ?thesis using Cons by (simp add: a)
  next
    case (Some t)
    show ?thesis
    proof (cases "t = []")
      case True
      then show ?thesis using Cons Some by (simp add: a)
    next
      case False
      obtain r1 c1 where u1: "upsert_section srv c t u stats = (r1, c1)"
        by (cases "upsert_section srv c t u stats")
      note k1 = upsert_section_keeps[OF u1]
      show ?thesis
      proof (cases r1)
        case None
        then have "upsert_sections srv tmap u secs c1 = (r, c')"
          using Cons.prems(1) Some False u1 by (simp add: a)
        from Cons.IH[OF this] k1 show ?thesis by simp
      next
        case (Some e)
        then have "c' = c1" using Cons.prems(1) \<open>map_of tmap key = Some t\<close> False u1
          by (simp add: a)
        then show ?thesis using k1 by simp
      qed
    qed
  qed
qed

lemma store_player_reflects:
  assumes "store_player srv m names u secs raw c = (None, c')"
    and "sections_ok secs" and "distinct_tables m"
  shows "reflects m names (pending c') u secs raw"
proof -
  from assms(1) obtain c1 c2 where
    u1: "upsert_player srv c u (name_get names u) = (None, c1)" and
    u2: "upsert_raw srv c1 (raw_table m) u raw = (None, c2)" and
    u3: "upsert_sections srv (section_table_map m) u secs c2 = (None, c')"
    by (auto simp: store_player_def split: prod.splits option.splits)
  have p1: "\<exists>r. players (pending c1) u = Some r \<and>
           (\<forall>x. sql_param (name_get names u) = Inr (Some x) \<longrightarrow> p_name r = Some x)"
    using u1 by (auto simp: upsert_player_def execute_def split: sum.splits if_splits option.splits)
  have p: "players (pending c') = players (pending c1)"
    using upsert_raw_players[OF u2] upsert_sections_keeps[OF u3] by simp
  have r2: "\<exists>rr. raw_tables (pending c2) (raw_table m) u = Some rr \<and> stats_json rr = raw"
    using u2 by (auto simp: upsert_raw_def execute_def split: if_splits)
  have r: "raw_tables (pending c') = raw_tables (pending c2)"
    using upsert_sections_keeps[OF u3] by simp
  have s: "section_view (pending c') t u = map_of stats"
    if "map_of secs C = Some stats" "map_of (section_table_map m) C = Some t" for C stats t
    using store_player_sections[OF assms(1,2,3) that(2)] that(1) by simp
  show ?thesis unfolding reflects_def using p1 p r2 r s by auto
qed

lemma reflects_stored_for:
  assumes "stored_for db u = stored_for db' u"
  shows "reflects m names db u secs raw = reflects m names db' u secs raw"
  unfolding reflects_def
  using stored_for_eqD(1)[OF assms] stored_for_eqD(2)[OF assms] stored_for_eqD(4)[OF assms]
  by simp

lemma process_files_reflects:
  assumes "process_files srv m names files c n = (Inr n', c')"
    and "distinct_players files" and "distinct_tables m"
    and "(fname, f) \<in> set files" and "parse_stats f = Inr (Some (secs, raw))"
  shows "reflects m names (pending c') (stem fname) secs raw"
proof -
  from process_files_last_writer[OF assms(1,2,4,5)] obtain c0 c1 where
    s: "store_player srv m names (stem fname) secs raw c0 = (None, c1)" and
    e1: "stored_for (pending c') (stem fname) = stored_for (pending c1) (stem fname)"
    by blast
  from store_player_reflects[OF s parse_stats_sections_ok[OF assms(5)] assms(3)]
  show ?thesis using reflects_stored_for[OF e1] by simp
qed


lemma reflects_visible:
  assumes "visible db = visible db'"
  shows "reflects m names db u secs raw = reflects m names db' u secs raw"
proof -
  from assms have a: "map_option (\<lambda>r. (p_name r, first_seen r)) (players db u)
                      = map_option (\<lambda>r. (p_name r, first_seen r)) (players db' u)"
    and b: "map_option stats_json (raw_tables db t u) = map_option stats_json (raw_tables db' t u)"
    for t
    by (simp_all add: visible_def fun_eq_iff)
  have c: "map_option stat_value (rows (section_tables db t) uk)
              = map_option stat_value (rows (section_tables db' t) uk)" for t uk
    using assms by (cases uk) (simp add: visible_def fun_eq_iff)
  have pl: "(\<exists>r. players db u = Some r \<and> P (p_name r)) = (\<exists>r. players db' u = Some r \<and> P (p_name r))" for P
    using a by (cases "players db u"; cases "players db' u") auto
  have rw: "(\<exists>rr. raw_tables db t u = Some rr \<and> stats_json rr = raw)
          = (\<exists>rr. raw_tables db' t u = Some rr \<and> stats_json rr = raw)" for t
    using b[of t] by (cases "raw_tables db t u"; cases "raw_tables db' t u") auto
  have sv: "section_view db t u = section_view db' t u" for t
    using c by (simp add: section_view_def fun_eq_iff)
  show ?thesis unfolding reflects_def
    using pl[of "\<lambda>nm. \<forall>x. sql_param (name_get names u) = Inr (Some x) \<longrightarrow> nm = Some x"]
      rw[of "raw_table m"] sv
    by simp
qed

lemma upsert_section_absorbed:
  assumes "upsert_section srv c t u stats = (None, c')" and "distinct (map fst stats)"
    and "section_view (pending c) t u = map_of stats"
  shows "visible (pending c') = visible (pending c)"
proof -
  have keep: "players (pending c') = players (pending c)"
    "raw_tables (pending c') = raw_tables (pending c)"
    using upsert_section_keeps[OF assms(1)] by simp_all
  note v = upsert_section_view[OF assms(1,2)]
  have other: "rows (section_tables (pending c') t) (u', k) = rows (section_tables (pending c) t) (u', k)"
    if "u' \<noteq> u" for u' k
    using stored_for_eqD(3)[OF upsert_section_other[OF assms(1) that]] .
  have "map_option stat_value (rows (section_tables (pending c') t') uk)
          = map_option stat_value (rows (section_tables (pending c) t') uk)" for t' uk
  proof (cases "t' = t")
    case False
    then show ?thesis using v(2) by simp
  next
    case True
    obtain u' k where uk: "uk = (u', k)" by (cases uk)
    show ?thesis
    proof (cases "u' = u")
      case False
      then show ?thesis using other True uk by simp
    next
      case same: True
      have "section_view (pending c') t u k = section_view (pending c) t u k"
        using v(1) assms(3) by simp
      then show ?thesis using True uk same by (simp add: section_view_def)
    qed
  qed
  then show ?thesis using keep by (simp add: visible_def)
qed

lemma upsert_sections_absorbed:
  "upsert_sections srv tmap u secs c = (None, c') \<Longrightarrow> distinct (map fst secs)
     \<Longrightarrow> \<forall>x \<in> set secs. distinct (map fst (snd x))
     \<Longrightarrow> \<forall>C stats t. map_of secs C = Some stats \<and> map_of tmap C = Some t
            \<longrightarrow> section_view (pending c) t u = map_of stats
     \<Longrightarrow> visible (pending c') = visible (pending c)"
proof (induction secs arbitrary: c)
  case Nil
  then show ?case by simp
next
  case (Cons a secs)
  obtain C1 stats1 where a: "a = (C1, stats1)" by (cases a)
  have d: "distinct (map fst secs)" "\<forall>x \<in> set secs. distinct (map fst (snd x))"
    using Cons.prems(2,3) by simp_all
  have later: "map_of secs C = Some stats \<Longrightarrow> map_of (a # secs) C = Some stats" for C stats
    using Cons.prems(2) by (auto simp: a map_of_eq_None_iff image_iff dest: map_of_SomeD)
  have hyp: "\<forall>C stats t. map_of secs C = Some stats \<and> map_of tmap C = Some t
            \<longrightarrow> section_view (pending c) t u = map_of stats"
    using Cons.prems(4) later by blast
  have skip: ?case if "upsert_sections srv tmap u secs c = (None, c')"
    using Cons.IH[OF that d hyp] .
  show ?case
  proof (cases "map_of tmap C1")
    case None
    then show ?thesis using Cons.prems(1) skip by (simp add: a)
  next
    case (Some t1)
    show ?thesis
    proof (cases "t1 = []")
      case True
      then show ?thesis using Cons.prems(1) Some skip by (simp add: a)
    next
      case False
      obtain r1 c1 where u1: "upsert_section srv c t1 u stats1 = (r1, c1)"
        by (cases "upsert_section srv c t1 u stats1")
      have r1: "r1 = None" using Cons.prems(1) Some False u1 by (cases r1) (simp_all add: a)
      have rest: "upsert_sections srv tmap u secs c1 = (None, c')"
        using Cons.prems(1) Some False u1 r1 by (simp add: a)
      have v1: "section_view (pending c) t1 u = map_of stats1"
        using Cons.prems(4)[rule_format, of C1 stats1 t1] Some by (simp add: a)
      have d1: "distinct (map fst stats1)" using Cons.prems(3) by (simp add: a)
      have vis1: "visible (pending c1) = visible (pending c)"
        using upsert_section_absorbed[OF u1[unfolded r1] d1 v1] .
      have sv: "section_view (pending c1) t u = section_view (pending c) t u" for t
        using vis1 by (simp add: visible_def section_view_def fun_eq_iff)
      have hyp1: "\<forall>C stats t. map_of secs C = Some stats \<and> map_of tmap C = Some t
            \<longrightarrow> section_view (pending c1) t u = map_of stats"
        using hyp sv by simp
      from Cons.IH[OF rest d hyp1] vis1 show ?thesis by simp
    qed
  qed
qed

lemma store_player_absorbed:
  assumes "store_player srv m names u secs raw c = (None, c')"
    and "sections_ok secs" and "reflects m names (pending c) u secs raw"
  shows "visible (pending c') = visible (pending c)"
proof -
  from assms(1) obtain c1 c2 where
    u1: "upsert_player srv c u (name_get names u) = (None, c1)" and
    u2: "upsert_raw srv c1 (raw_table m) u raw = (None, c2)" and
    u3: "upsert_sections srv (section_table_map m) u secs c2 = (None, c')"
    by (auto simp: store_player_def split: prod.splits option.splits)
  from assms(3) obtain r rr where
    pr: "players (pending c) u = Some r"
        "\<forall>x. sql_param (name_get names u) = Inr (Some x) \<longrightarrow> p_name r = Some x" and
    rw: "raw_tables (pending c) (raw_table m) u = Some rr" "stats_json rr = raw" and
    sv: "\<forall>C stats t. map_of secs C = Some stats \<and> map_of (section_table_map m) C = Some t
                     \<longrightarrow> section_view (pending c) t u = map_of stats"
    unfolding reflects_def by blast
  have v1: "visible (pending c1) = visible (pending c)"
    using u1 pr
    by (auto simp: upsert_player_def execute_def visible_def fun_eq_iff
             split: sum.splits if_splits option.splits)
  have rw1: "raw_tables (pending c1) (raw_table m) u = Some rr"
    using u1 rw(1)
    by (auto simp: upsert_player_def execute_def split: sum.splits if_splits option.splits)
  have v2: "visible (pending c2) = visible (pending c1)"
    using u2 rw1 rw(2)
    by (auto simp: upsert_raw_def execute_def visible_def fun_eq_iff split: if_splits)
  have sv2: "\<forall>C stats t. map_of secs C = Some stats \<and> map_of (section_table_map m) C = Some t
                     \<longrightarrow> section_view (pending c2) t u = map_of stats"
    using sv v1 v2 by (simp add: visible_def section_view_def fun_eq_iff)
  have v3: "visible (pending c') = visible (pending c2)"
    using upsert_sections_absorbed[OF u3 _ _ sv2] assms(2) by (simp add: sections_ok_def)
  show ?thesis using v1 v2 v3 by simp
qed

lemma process_files_absorbed:
  "process_files srv m names files c n = (Inr n', c')
     \<Longrightarrow> \<forall>entry \<in> set files. \<forall>secs raw. parse_stats (snd entry) = Inr (Some (secs, raw))
            \<longrightarrow> reflects m names (pending c) (stem (fst entry)) secs raw
     \<Longrightarrow> visible (pending c') = visible (pending c)"
proof (induction files arbitrary: c n)
  case Nil
  then show ?case by simp
next
  case (Cons a files)
  obtain g f where a: "a = (g, f)" by (cases a)
  have rest: "\<forall>entry \<in> set files. \<forall>secs raw. parse_stats (snd entry) = Inr (Some (secs, raw))
            \<longrightarrow> reflects m names (pending c) (stem (fst entry)) secs raw"
    using Cons.prems(2) by simp
  show ?case
  proof (cases "parse_stats f")
    case (Inl e)
    then show ?thesis using Cons.prems(1) by (simp add: a)
  next
    case (Inr p)
    show ?thesis
    proof (cases p)
      case None
      then have "process_files srv m names files c n = (Inr n', c')"
        using Cons.prems(1) Inr by (simp add: a)
      from Cons.IH[OF this rest] show ?thesis .
    next
      case (Some sr)
      obtain secs raw where sr: "sr = (secs, raw)" by (cases sr)
      have p: "parse_stats f = Inr (Some (secs, raw))" using Inr Some sr by simp
      obtain r1 c1 where s1: "store_player srv m names (stem g) secs raw c = (r1, c1)"
        by (cases "store_player srv m names (stem g) secs raw c")
      have r1: "r1 = None" using Cons.prems(1) p s1 by (cases r1) (simp_all add: a)
      have next_run: "process_files srv m names files c1 (n + 1) = (Inr n', c')"
        using Cons.prems(1) p s1 r1 by (simp add: a)
      have "reflects m names (pending c) (stem g) secs raw"
        using Cons.prems(2) p by (simp add: a)
      from store_player_absorbed[OF s1[unfolded r1] parse_stats_sections_ok[OF p] this]
      have v1: "visible (pending c1) = visible (pending c)" .
      have rest1: "\<forall>entry \<in> set files. \<forall>secs raw. parse_stats (snd entry) = Inr (Some (secs, raw))
            \<longrightarrow> reflects m names (pending c1) (stem (fst entry)) secs raw"
        using rest reflects_visible[OF v1] by simp
      from Cons.IH[OF next_run rest1] v1 show ?thesis by simp
    qed
  qed
qed


lemma maybe_fetch_keeps_world:
  "maybe_fetch_world_via_sftp cfg td rem d0 = (r, d)
     \<Longrightarrow> world_stats d = world_stats d0 \<and> world_usercache d = world_usercache d0"
  by (auto simp: maybe_fetch_world_via_sftp_def Let_def rmtree_def
           split: if_splits option.splits sum.splits)

lemma maybe_fetch_same_source:
  assumes "maybe_fetch_world_via_sftp cfg td rem d0 = (Inr fw, d)"
    and "world_stats D = world_stats d0" and "world_usercache D = world_usercache d0"
  shows "\<exists>d'. maybe_fetch_world_via_sftp cfg td rem D = (Inr fw, d') \<and>
              resolve_source fw d' = resolve_source fw d"
  using assms
  by (auto simp: maybe_fetch_world_via_sftp_def Let_def rmtree_def resolve_source_def
           split: if_splits option.splits sum.splits)

text \<open>
  Claim C6, as amended. A run ends normally, with one file per player and a table of its
  own for each category; a second run against the same input (the same remote host, the
  disk as the first run left it, the same configuration), at whatever later time, ends
  normally too. Then the second run leaves the content of every table as it was after the
  first run in all columns but those the server fills in: player names and first-seen
  times, raw documents, and the key/value rows of every section table are the same; the
  last-seen and updated-at timestamps and the surrogate ids of section rows are not
  compared.
\<close>

theorem second_run_keeps_data:
  assumes "maybe_fetch_world_via_sftp (sftp cfg) (temp_dir cfg) (transfer env) (on_disk w)
          = (Inr fw, d)"
    and "resolve_source fw d = (Some entries, uc, cl)"
    and "fst (sync cfg env w) = Inr n1"
    and "transfer env' = transfer env"
    and "fst (sync cfg env' (snd (sync cfg env w))) = Inr n2"
    and "distinct_tables (mysql cfg)" and "distinct_players (glob_json entries)"
  shows "same_data (stored (snd (sync cfg env' (snd (sync cfg env w)))))
           (stored (snd (sync cfg env w)))"
proof -
  let ?w1 = "snd (sync cfg env w)"
  let ?w2 = "snd (sync cfg env' ?w1)"
  from sync_success[OF assms(3,1,2)] obtain names c1 where
    uc: "load_usercache uc = Inr names" and
    pf1: "process_files (server env) (mysql cfg) names (glob_json entries)
             \<lparr>committed = stored w, pending = stored w\<rparr> 0 = (Inr n1, c1)" and
    st1: "stored ?w1 = pending c1" and
    dk1: "on_disk ?w1 = (case cl of None \<Rightarrow> d | Some tmp \<Rightarrow> rmtree tmp d)"
    by blast
  have wd: "world_stats (on_disk ?w1) = world_stats (on_disk w) \<and>
            world_usercache (on_disk ?w1) = world_usercache (on_disk w)"
    using maybe_fetch_keeps_world[OF assms(1)] dk1
    by (cases cl) (simp_all add: rmtree_def)
  from maybe_fetch_same_source[OF assms(1), of "on_disk ?w1"] wd assms(2,4) obtain d' where
    f2: "maybe_fetch_world_via_sftp (sftp cfg) (temp_dir cfg) (transfer env') (on_disk ?w1)
           = (Inr fw, d')" and
    r2: "resolve_source fw d' = (Some entries, uc, cl)" by auto
  from sync_success[OF assms(5) f2 r2] uc obtain c2 where
    pf2: "process_files (server env') (mysql cfg) names (glob_json entries)
             \<lparr>committed = stored ?w1, pending = stored ?w1\<rparr> 0 = (Inr n2, c2)" and
    st2: "stored ?w2 = pending c2"
    by auto
  have refl: "\<forall>entry \<in> set (glob_json entries). \<forall>secs raw.
                parse_stats (snd entry) = Inr (Some (secs, raw))
                \<longrightarrow> reflects (mysql cfg) names
                      (pending \<lparr>committed = stored ?w1, pending = stored ?w1\<rparr>)
                      (stem (fst entry)) secs raw"
  proof (intro ballI allI impI)
    fix entry secs raw
    assume mem: "entry \<in> set (glob_json entries)"
      and p: "parse_stats (snd entry) = Inr (Some (secs, raw))"
    then have "(fst entry, snd entry) \<in> set (glob_json entries)" by simp
    from process_files_reflects[OF pf1 assms(7,6) this p] st1
    show "reflects (mysql cfg) names
            (pending \<lparr>committed = stored ?w1, pending = stored ?w1\<rparr>)
            (stem (fst entry)) secs raw" by simp
  qed
  from process_files_absorbed[OF pf2 refl] st2 show ?thesis by (simp add: same_data_def)
qed

lemma scenario_A_stem:
  "stem ''11111111-1111-1111-1111-111111111111.json'' = ''11111111-1111-1111-1111-111111111111''"
  by code_simp

lemma scenario_A_run:
  "on_disk W = on_disk scenario_A_world \<Longrightarrow>
     sync local_config \<lparr>transfer = rem, server = accepting_server t\<rparr> W =
       (Inr 1,
        \<lparr>on_disk = on_disk W,
         stored =
           apply_stmt t (InsertSection ''player_stats_mined''
                          [(''11111111-1111-1111-1111-111111111111'', ''minecraft:stone'', 42)])
          (apply_stmt t (DeleteSection ''player_stats_mined''
                           ''11111111-1111-1111-1111-111111111111'')
          (apply_stmt t (UpsertRaw ''player_stats''
                           ''11111111-1111-1111-1111-111111111111'' scenario_A)
          (apply_stmt t (UpsertPlayer ''11111111-1111-1111-1111-111111111111'' None)
             (stored W))))\<rparr>)"
  by (simp add: run_defs scenario_A_source scenario_A_glob scenario_A_parsed accepting_server_def
        local_config_mysql scenario_A_stem del: apply_stmt.simps) simp

text \<open>
  Claim C6 as stated compares every column of every row. Two runs of Scenario A, the
  second one second later: the player's last-seen column is 5 after the first run and 6
  after the second (\<^verbatim>\<open>last_seen = CURRENT_TIMESTAMP\<close>, line 275), so the tables differ.
\<close>

theorem second_run_changes_last_seen:
  "fst (sync local_config \<lparr>transfer = unreachable_host, server = accepting_server 5\<rparr>
          scenario_A_world) = Inr 1 \<and>
   on_disk (snd (sync local_config \<lparr>transfer = unreachable_host, server = accepting_server 5\<rparr>
                   scenario_A_world)) = on_disk scenario_A_world \<and>
   fst (sync local_config \<lparr>transfer = unreachable_host, server = accepting_server 6\<rparr>
          (snd (sync local_config \<lparr>transfer = unreachable_host, server = accepting_server 5\<rparr>
                  scenario_A_world))) = Inr 1 \<and>
   players (stored (snd (sync local_config
                           \<lparr>transfer = unreachable_host, server = accepting_server 5\<rparr>
                           scenario_A_world)))
     ''11111111-1111-1111-1111-111111111111''
     = Some \<lparr>p_name = None, first_seen = 5, last_seen = 5\<rparr> \<and>
   players (stored (snd (sync local_config
                           \<lparr>transfer = unreachable_host, server = accepting_server 6\<rparr>
      (snd (sync local_config \<lparr>transfer = unreachable_host, server = accepting_server 5\<rparr>
              scenario_A_world)))))
     ''11111111-1111-1111-1111-111111111111''
     = Some \<lparr>p_name = None, first_seen = 5, last_seen = 6\<rparr> \<and>
   stored (snd (sync local_config \<lparr>transfer = unreachable_host, server = accepting_server 6\<rparr>
      (snd (sync local_config \<lparr>transfer = unreachable_host, server = accepting_server 5\<rparr>
              scenario_A_world))))
     \<noteq> stored (snd (sync local_config
                       \<lparr>transfer = unreachable_host, server = accepting_server 5\<rparr>
                       scenario_A_world))"
proof -
  let ?e5 = "\<lparr>transfer = unreachable_host, server = accepting_server 5\<rparr>"
  let ?e6 = "\<lparr>transfer = unreachable_host, server = accepting_server 6\<rparr>"
  let ?u = "''11111111-1111-1111-1111-111111111111''"
  let ?w1 = "snd (sync local_config ?e5 scenario_A_world)"
  let ?w2 = "snd (sync local_config ?e6 ?w1)"
  have r1: "fst (sync local_config ?e5 scenario_A_world) = Inr 1"
    and d1: "on_disk ?w1 = on_disk scenario_A_world"
    and p1: "players (stored ?w1) ?u = Some \<lparr>p_name = None, first_seen = 5, last_seen = 5\<rparr>"
    by (simp_all add: scenario_A_run scenario_A_stored empty_database_def)
  have r2: "fst (sync local_config ?e6 ?w1) = Inr 1"
    by (simp add: scenario_A_run[OF d1])
  have p2: "players (stored ?w2) ?u = Some \<lparr>p_name = None, first_seen = 5, last_seen = 6\<rparr>"
    using p1 by (simp add: scenario_A_run[OF d1])
  have "stored ?w2 \<noteq> stored ?w1"
  proof
    assume "stored ?w2 = stored ?w1"
    then have "players (stored ?w2) ?u = players (stored ?w1) ?u" by simp
    then show False unfolding p1 p2 by simp
  qed
  with r1 d1 r2 p1 p2 show ?thesis by blast
qed

text \<open>The same two runs of Scenario A leave the same data.\<close>

theorem second_run_keeps_data_example:
  "fst (sync local_config \<lparr>transfer = unreachable_host, server = accepting_server 5\<rparr>
          scenario_A_world) = Inr 1 \<and>
   fst (sync local_config \<lparr>transfer = unreachable_host, server = accepting_server 6\<rparr>
          (snd (sync local_config \<lparr>transfer = unreachable_host, server = accepting_server 5\<rparr>
                  scenario_A_world))) = Inr 1 \<and>
   distinct_tables (mysql local_config) \<and>
   same_data
     (stored (snd (sync local_config \<lparr>transfer = unreachable_host, server = accepting_server 6\<rparr>
        (snd (sync local_config \<lparr>transfer = unreachable_host, server = accepting_server 5\<rparr>
                scenario_A_world)))))
     (stored (snd (sync local_config \<lparr>transfer = unreachable_host, server = accepting_server 5\<rparr>
                     scenario_A_world)))"
proof -
  let ?e5 = "\<lparr>transfer = unreachable_host, server = accepting_server 5\<rparr>"
  let ?e6 = "\<lparr>transfer = unreachable_host, server = accepting_server 6\<rparr>"
  let ?w1 = "snd (sync local_config ?e5 scenario_A_world)"
  have s1: "maybe_fetch_world_via_sftp (sftp local_config) (temp_dir local_config)
              (transfer ?e5) (on_disk scenario_A_world) = (Inr None, on_disk scenario_A_world)"
    by (rule scenario_A_source(1))
  have r1: "fst (sync local_config ?e5 scenario_A_world) = Inr 1"
    and d1: "on_disk ?w1 = on_disk scenario_A_world"
    by (simp_all add: scenario_A_run)
  have r2: "fst (sync local_config ?e6 ?w1) = Inr 1"
    by (simp add: scenario_A_run[OF d1])
  have tr: "transfer ?e6 = transfer ?e5" by simp
  have dt: "distinct_tables (mysql local_config)"
    unfolding local_config_mysql by code_simp
  have dp: "distinct_players
              (glob_json [(''11111111-1111-1111-1111-111111111111.json'', Decoded scenario_A)])"
    by (simp add: scenario_A_glob distinct_players_def)
  from second_run_keeps_data[OF s1 scenario_A_source(2) r1 tr r2 dt dp] r1 r2 dt
  show ?thesis by blast
qed

end
